theory Spec2Isabelle
  imports Main "HOL-Library.Sublist"
begin

section \<open>Errors raised by the backends\<close>

text \<open>
  The error codes of \<^verbatim>\<open>ApiError\<close> that the two backends use, and the three kinds of
  exception that travel through them: a \<^verbatim>\<open>DOMException\<close> of the handle API (name and
  message), a \<^verbatim>\<open>TypeError\<close> of the JavaScript engine or of the handle API (message), and
  an \<^verbatim>\<open>ApiError\<close> (code, explicit message if one was given, path).
\<close>

datatype errcode = ENOENT | EEXIST | EINVAL | ENOTDIR

datatype error =
    DOMException string string
  | TypeError string
  | ApiError errcode "string option" string

section \<open>Worker.ts: the remote bridge\<close>

subsection \<open>Values delivered by the message channel\<close>

text \<open>
  \<^verbatim>\<open>event.data\<close> is any structured-cloneable JavaScript value: primitives, arrays, plain
  objects (an association list of own properties) and \<^verbatim>\<open>Error\<close> instances. Numbers are
  restricted to integers, the only ones the bridge ever uses as keys.
\<close>

datatype jsval =
    JUndefined
  | JNull
  | JBool bool
  | JNum int
  | JStr string
  | JArr "jsval list"
  | JObj "(string \<times> jsval) list"
  | JErr string

text \<open>\<^verbatim>\<open>typeof arg == 'object'\<close>: true for \<^verbatim>\<open>null\<close> as well.\<close>

fun typeof_object :: "jsval \<Rightarrow> bool" where
  "typeof_object JNull = True"
| "typeof_object (JArr _) = True"
| "typeof_object (JObj _) = True"
| "typeof_object (JErr _) = True"
| "typeof_object _ = False"

text \<open>\<^verbatim>\<open>key in arg\<close> for an \<^verbatim>\<open>arg\<close> whose typeof is object: a TypeError on \<^verbatim>\<open>null\<close>.\<close>

fun js_in :: "string \<Rightarrow> jsval \<Rightarrow> error + bool" where
  "js_in k (JObj fs) = Inr (k \<in> fst ` set fs)"
| "js_in k JNull = Inl (TypeError ''Cannot use in operator to search for a key in null'')"
| "js_in k _ = Inr False"

text \<open>Property read \<^verbatim>\<open>arg.key\<close> on a non-null value; a missing property is \<^verbatim>\<open>undefined\<close>.\<close>

fun js_get :: "jsval \<Rightarrow> string \<Rightarrow> jsval" where
  "js_get (JObj fs) k = (case map_of fs k of Some v \<Rightarrow> v | None \<Rightarrow> JUndefined)"
| "js_get _ k = JUndefined"

text \<open>\<^verbatim>\<open>!!v\<close>\<close>

fun truthy :: "jsval \<Rightarrow> bool" where
  "truthy JUndefined = False"
| "truthy JNull = False"
| "truthy (JBool b) = b"
| "truthy (JNum n) = (n \<noteq> 0)"
| "truthy (JStr s) = (s \<noteq> [])"
| "truthy _ = True"

text \<open>
  \<^verbatim>\<open>function isRPCMessage(arg) { return typeof arg == 'object' && 'isBFS' in arg && !!arg.isBFS; }\<close>
\<close>

definition isRPCMessage :: "jsval \<Rightarrow> error + bool" where
  "isRPCMessage arg =
     (if \<not> typeof_object arg then Inr False
      else case js_in ''isBFS'' arg of
             Inl e \<Rightarrow> Inl e
           | Inr False \<Rightarrow> Inr False
           | Inr True \<Rightarrow> Inr (truthy (js_get arg ''isBFS'')))"

text \<open>\<^verbatim>\<open>value instanceof Error || value instanceof ApiError\<close>\<close>

fun instanceof_Error :: "jsval \<Rightarrow> bool" where
  "instanceof_Error (JErr _) = True"
| "instanceof_Error _ = False"

subsection \<open>The bridge instance\<close>

text \<open>
  A promise made by \<^verbatim>\<open>_rpc\<close> is pending until its \<^verbatim>\<open>resolve\<close> or \<^verbatim>\<open>reject\<close> is
  called; a later call on a settled promise does nothing.
\<close>

datatype pstate = Pending | Resolved jsval | Rejected jsval

text \<open>
  The fields of \<^verbatim>\<open>WorkerFS\<close>. A \<^verbatim>\<open>WorkerRequest\<close> (the pair \<^verbatim>\<open>{resolve, reject}\<close>) is
  the number of the promise it settles; \<open>promises\<close> holds the state of every promise
  made so far, and \<open>posted\<close> what was handed to \<^verbatim>\<open>postMessage\<close>, in order.
\<close>

record bridge =
  currentID :: nat
  requests :: "nat \<rightharpoonup> nat"
  isInitialized :: bool
  metadata :: jsval
  promises :: "pstate list"
  posted :: "jsval list"

definition new_bridge :: bridge where
  "new_bridge = \<lparr>currentID = 0, requests = Map.empty, isInitialized = False,
     metadata = JUndefined, promises = [], posted = []\<rparr>"

text \<open>
  \<^verbatim>\<open>this._currentID++\<close> on a JavaScript number (a double): exact below \<open>2^53\<close>, where
  adding one rounds back to \<open>2^53\<close>, so the counter stays there.
\<close>

definition js_succ :: "nat \<Rightarrow> nat" where
  "js_succ n = (if n < 2 ^ 53 then n + 1 else n)"

definition settle :: "nat \<Rightarrow> pstate \<Rightarrow> pstate list \<Rightarrow> pstate list" where
  "settle p outcome ps =
     (if p < length ps \<and> ps ! p = Pending then ps[p := outcome] else ps)"

text \<open>
  \<^verbatim>\<open>_rpc(method, ...args)\<close>: the promise executor runs at once; it takes the id, stores
  the request and posts the envelope. The result is the number of the new promise.
\<close>

definition rpc :: "bridge \<Rightarrow> string \<Rightarrow> jsval list \<Rightarrow> nat \<times> bridge" where
  "rpc s method args =
     (let p = length (promises s);
          s0 = s\<lparr>promises := promises s @ [Pending]\<rparr>;
          ident = currentID s0;
          s1 = s0\<lparr>currentID := js_succ ident\<rparr>;
          s2 = s1\<lparr>requests := (requests s1)(ident \<mapsto> p)\<rparr>;
          s3 = s2\<lparr>posted := posted s2 @
                 [JObj [(''isBFS'', JBool True), (''id'', JNum (int ident)),
                        (''method'', JStr method), (''args'', JArr args)]]\<rparr>
      in (p, s3))"

text \<open>\<^verbatim>\<open>this._requests.get(id)\<close>: the keys of the map are the numbers \<^verbatim>\<open>_rpc\<close> stored.\<close>

fun request_key :: "jsval \<Rightarrow> nat option" where
  "request_key (JNum n) = (if 0 \<le> n then Some (nat n) else None)"
| "request_key _ = None"

definition requests_get :: "bridge \<Rightarrow> jsval \<Rightarrow> nat option" where
  "requests_get s ident = (case request_key ident of None \<Rightarrow> None | Some k \<Rightarrow> requests s k)"

definition requests_delete :: "bridge \<Rightarrow> jsval \<Rightarrow> bridge" where
  "requests_delete s ident =
     (case request_key ident of None \<Rightarrow> s | Some k \<Rightarrow> s\<lparr>requests := (requests s)(k := None)\<rparr>)"

text \<open>
  The \<^verbatim>\<open>onmessage\<close> handler installed by the constructor. It returns, or throws with
  the state as it was at the throw.
\<close>

definition onmessage :: "bridge \<Rightarrow> jsval \<Rightarrow> (error + unit) \<times> bridge" where
  "onmessage s data =
     (case isRPCMessage data of
        Inl e \<Rightarrow> (Inl e, s)
      | Inr False \<Rightarrow> (Inr (), s)
      | Inr True \<Rightarrow>
          (let ident = js_get data ''id'';
               method = js_get data ''method'';
               val = js_get data ''value''
           in if method = JStr ''metadata''
              then (Inr (), s\<lparr>metadata := val, isInitialized := True\<rparr>)
              else case requests_get s ident of
                     None \<Rightarrow>
                       (Inl (TypeError ''Cannot destructure property resolve of undefined''), s)
                   | Some p \<Rightarrow>
                       (let s1 = requests_delete s ident
                        in if instanceof_Error val
                           then (Inr (), s1\<lparr>promises := settle p (Rejected val) (promises s1)\<rparr>)
                           else (Inr (), s1\<lparr>promises := settle p (Resolved val) (promises s1)\<rparr>))))"

text \<open>A message has the protocol marker when it is an object with a truthy \<^verbatim>\<open>isBFS\<close>.\<close>

fun has_marker :: "jsval \<Rightarrow> bool" where
  "has_marker (JObj fs) = (case map_of fs ''isBFS'' of Some v \<Rightarrow> truthy v | None \<Rightarrow> False)"
| "has_marker _ = False"

subsection \<open>Runs of one bridge instance\<close>

text \<open>
  What happens to one instance: a caller invokes an operation (every public method is
  one call of \<^verbatim>\<open>_rpc\<close>), or the channel delivers a message. An exception thrown by the
  handler is not caught by the bridge; the instance lives on in the state of the throw.
\<close>

datatype event = Request string "jsval list" | Message jsval

definition step :: "bridge \<Rightarrow> event \<Rightarrow> bridge" where
  "step s e =
     (case e of
        Request method args \<Rightarrow> snd (rpc s method args)
      | Message v \<Rightarrow> snd (onmessage s v))"

definition run :: "bridge \<Rightarrow> event list \<Rightarrow> bridge" where
  "run s evs = foldl step s evs"

fun is_request :: "event \<Rightarrow> bool" where
  "is_request (Request _ _) = True"
| "is_request (Message _) = False"

definition n_requests :: "event list \<Rightarrow> nat" where
  "n_requests evs = length (filter is_request evs)"

text \<open>The ids of the envelopes posted so far, in the order of posting.\<close>

definition sent_ids :: "bridge \<Rightarrow> jsval list" where
  "sent_ids s = map (\<lambda>m. js_get m ''id'') (posted s)"

text \<open>
  The events of a run at which the id \<open>k\<close> leaves the pending map: it is a key before
  the event and not after it.
\<close>

fun removed_by :: "nat \<Rightarrow> bridge \<Rightarrow> event list \<Rightarrow> event list" where
  "removed_by k s [] = []"
| "removed_by k s (e # es) =
     (if requests s k \<noteq> None \<and> requests (step s e) k = None then [e] else [])
     @ removed_by k (step s e) es"

text \<open>
  A response envelope for the id \<open>k\<close>: it has the protocol marker, its method is not
  \<^verbatim>\<open>metadata\<close>, and its id is the number \<open>k\<close>. Its outcome for the promise is a
  rejection when the value is an error object and a resolution otherwise.
\<close>

definition answers :: "jsval \<Rightarrow> nat \<Rightarrow> bool" where
  "answers v k \<longleftrightarrow> has_marker v \<and> js_get v ''method'' \<noteq> JStr ''metadata''
     \<and> request_key (js_get v ''id'') = Some k"

definition outcome :: "jsval \<Rightarrow> pstate" where
  "outcome v = (let val = js_get v ''value''
                in if instanceof_Error val then Rejected val else Resolved val)"

text \<open>Two invariants of the pending map, used in the proofs below.\<close>

definition ids_below_counter :: "bridge \<Rightarrow> bool" where
  "ids_below_counter s \<longleftrightarrow> (\<forall>k. requests s k \<noteq> None \<longrightarrow> k < currentID s)"

definition requests_pending :: "bridge \<Rightarrow> bool" where
  "requests_pending s \<longleftrightarrow>
     (\<forall>k p. requests s k = Some p \<longrightarrow> p < length (promises s) \<and> promises s ! p = Pending) \<and>
     (\<forall>k k' p. requests s k = Some p \<longrightarrow> requests s k' = Some p \<longrightarrow> k = k')"

text \<open>A response envelope, and eight requests in a row (ids 0 to 7), for the examples.\<close>

definition response :: "int \<Rightarrow> string \<Rightarrow> jsval \<Rightarrow> jsval" where
  "response n method val =
     JObj [(''isBFS'', JBool True), (''id'', JNum n), (''method'', JStr method), (''value'', val)]"

definition eight_requests :: "event list" where
  "eight_requests =
     [Request ''stat'' [JStr ''/0''], Request ''stat'' [JStr ''/1''], Request ''stat'' [JStr ''/2''],
      Request ''stat'' [JStr ''/3''], Request ''stat'' [JStr ''/4''], Request ''stat'' [JStr ''/5''],
      Request ''stat'' [JStr ''/6''], Request ''readdir'' [JStr ''/'']]"

section \<open>FileSystemAccess.ts: the handle-tree resolver\<close>

text \<open>
  The resolver \<^verbatim>\<open>getHandle\<close> and the operations built on it that the properties below
  are about: \<^verbatim>\<open>stat\<close>, \<^verbatim>\<open>readdir\<close>, \<^verbatim>\<open>mkdir\<close>, \<^verbatim>\<open>unlink\<close> and \<^verbatim>\<open>rename\<close>. The credentials
  argument, which no operation reads, is left out.
\<close>

subsection \<open>Paths\<close>

text \<open>
  \<^verbatim>\<open>join\<close>, \<^verbatim>\<open>dirname\<close> and \<^verbatim>\<open>basename\<close> are imported from the \<^verbatim>\<open>path\<close> module, which is
  not part of the repository. They are modelled after its POSIX variant:
  \<^verbatim>\<open>normalize\<close> drops empty and \<^verbatim>\<open>.\<close> segments, resolves \<^verbatim>\<open>..\<close> against the segment before
  it and keeps a trailing separator; \<^verbatim>\<open>join\<close> normalizes its non-empty arguments joined
  by a slash. \<open>split_slash\<close> is \<^verbatim>\<open>String.prototype.split('/')\<close>.
\<close>

fun split_slash :: "string \<Rightarrow> string list" where
  "split_slash [] = [[]]"
| "split_slash (c # cs) =
     (if c = CHR ''/'' then [] # split_slash cs
      else case split_slash cs of
             [] \<Rightarrow> [[c]]
           | x # xs \<Rightarrow> (c # x) # xs)"

fun join_slash :: "string list \<Rightarrow> string" where
  "join_slash [] = []"
| "join_slash [x] = x"
| "join_slash (x # y # ys) = x @ CHR ''/'' # join_slash (y # ys)"

fun normalizeSegments :: "bool \<Rightarrow> string list \<Rightarrow> string list \<Rightarrow> string list" where
  "normalizeSegments allowAboveRoot res [] = res"
| "normalizeSegments allowAboveRoot res (seg # segs) =
     (if seg = [] \<or> seg = ''.'' then normalizeSegments allowAboveRoot res segs
      else if seg = ''..'' then
        (if res \<noteq> [] \<and> last res \<noteq> ''..'' then normalizeSegments allowAboveRoot (butlast res) segs
         else if allowAboveRoot then normalizeSegments allowAboveRoot (res @ [''..'']) segs
         else normalizeSegments allowAboveRoot res segs)
      else normalizeSegments allowAboveRoot (res @ [seg]) segs)"

definition normalizeString :: "string \<Rightarrow> bool \<Rightarrow> string" where
  "normalizeString path allowAboveRoot =
     join_slash (normalizeSegments allowAboveRoot [] (split_slash path))"

definition normalize_path :: "string \<Rightarrow> string" where
  "normalize_path path =
     (if path = [] then ''.''
      else let isAbsolute = (hd path = CHR ''/'');
               trailingSeparator = (last path = CHR ''/'');
               p = normalizeString path (\<not> isAbsolute)
           in if p = [] then (if isAbsolute then ''/'' else if trailingSeparator then ''./'' else ''.'')
              else let q = (if trailingSeparator then p @ ''/'' else p)
                   in if isAbsolute then CHR ''/'' # q else q)"

definition join :: "string \<Rightarrow> string \<Rightarrow> string" where
  "join a b =
     (if a = [] \<and> b = [] then ''.''
      else if a = [] then normalize_path b
      else if b = [] then normalize_path a
      else normalize_path (a @ CHR ''/'' # b))"

text \<open>
  \<^verbatim>\<open>dirname\<close>: the path up to the last slash that is followed by a segment, trailing
  slashes and the first character apart; \<^verbatim>\<open>basename\<close>: the last segment.
\<close>

definition dirname :: "string \<Rightarrow> string" where
  "dirname path =
     (if path = [] then ''.''
      else let hasRoot = (hd path = CHR ''/'');
               r = dropWhile (\<lambda>c. c = CHR ''/'') (rev (tl path));
               upto = dropWhile (\<lambda>c. c \<noteq> CHR ''/'') r
           in if upto = [] then (if hasRoot then ''/'' else ''.'')
              else if hasRoot \<and> tl upto = [] then ''//''
              else hd path # rev (tl upto))"

definition basename :: "string \<Rightarrow> string" where
  "basename path =
     rev (takeWhile (\<lambda>c. c \<noteq> CHR ''/'') (dropWhile (\<lambda>c. c = CHR ''/'') (rev path)))"

subsection \<open>The handle-granting API\<close>

text \<open>
  Modelled from the spec: the externally supplied handle tree (the File System Access
  API of the browser), which the repository only calls. The tree is the list of its
  entries, each under its locator (the names from the root down); a handle is an object
  with its own identity \<open>hid\<close> that refers to a locator, and every grant makes a new
  object. \<^verbatim>\<open>getDirectoryHandle(name, {create})\<close>, \<^verbatim>\<open>getFileHandle(name, {create})\<close> and
  \<^verbatim>\<open>removeEntry(name, {recursive})\<close> reject a name that is empty, \<^verbatim>\<open>.\<close>, \<^verbatim>\<open>..\<close> or holds a
  slash with the TypeError \<^verbatim>\<open>Name is not allowed.\<close>, an absent entry with a
  \<^verbatim>\<open>NotFoundError\<close> and an entry of the other kind with a \<^verbatim>\<open>TypeMismatchError\<close>. A file
  gives its content and modification time; a writable stream replaces the content when it
  is closed.
\<close>

datatype entry = FileEntry string nat | DirEntry

record host =
  entries :: "(string list \<times> entry) list"
  next_handle :: nat
  clock :: nat

datatype kind = DirectoryHandle | FileHandle

record handle =
  kind :: kind
  locator :: "string list"
  hid :: nat

definition NotFoundError :: error where
  "NotFoundError = DOMException ''NotFoundError''
     ''A requested file or directory could not be found at the time an operation was processed.''"

definition TypeMismatchError :: error where
  "TypeMismatchError = DOMException ''TypeMismatchError''
     ''The path supplied exists, but was not an entry of requested type.''"

definition InvalidModificationError :: error where
  "InvalidModificationError = DOMException ''InvalidModificationError''
     ''The object can not be modified in this way.''"

definition valid_name :: "string \<Rightarrow> bool" where
  "valid_name name \<longleftrightarrow> name \<noteq> [] \<and> name \<noteq> ''.'' \<and> name \<noteq> ''..'' \<and> CHR ''/'' \<notin> set name"

definition lookup :: "host \<Rightarrow> string list \<Rightarrow> entry option" where
  "lookup w loc = map_of (entries w) loc"

definition grant :: "host \<Rightarrow> kind \<Rightarrow> string list \<Rightarrow> handle \<times> host" where
  "grant w k loc =
     (\<lparr>kind = k, locator = loc, hid = next_handle w\<rparr>, w\<lparr>next_handle := Suc (next_handle w)\<rparr>)"

definition getDirectoryHandle :: "host \<Rightarrow> handle \<Rightarrow> string \<Rightarrow> bool \<Rightarrow> (error + handle) \<times> host" where
  "getDirectoryHandle w h name create =
     (if \<not> valid_name name then (Inl (TypeError ''Name is not allowed.''), w)
      else if lookup w (locator h) \<noteq> Some DirEntry then (Inl NotFoundError, w)
      else case lookup w (locator h @ [name]) of
             Some DirEntry \<Rightarrow>
               (let (g, w') = grant w DirectoryHandle (locator h @ [name]) in (Inr g, w'))
           | Some (FileEntry _ _) \<Rightarrow> (Inl TypeMismatchError, w)
           | None \<Rightarrow>
               if create
               then (let (g, w') = grant (w\<lparr>entries := entries w @ [(locator h @ [name], DirEntry)]\<rparr>)
                                     DirectoryHandle (locator h @ [name])
                     in (Inr g, w'))
               else (Inl NotFoundError, w))"

definition getFileHandle :: "host \<Rightarrow> handle \<Rightarrow> string \<Rightarrow> bool \<Rightarrow> (error + handle) \<times> host" where
  "getFileHandle w h name create =
     (if \<not> valid_name name then (Inl (TypeError ''Name is not allowed.''), w)
      else if lookup w (locator h) \<noteq> Some DirEntry then (Inl NotFoundError, w)
      else case lookup w (locator h @ [name]) of
             Some (FileEntry _ _) \<Rightarrow>
               (let (g, w') = grant w FileHandle (locator h @ [name]) in (Inr g, w'))
           | Some DirEntry \<Rightarrow> (Inl TypeMismatchError, w)
           | None \<Rightarrow>
               if create
               then (let (g, w') = grant (w\<lparr>entries := entries w @ [(locator h @ [name], FileEntry [] (clock w))],
                                             clock := Suc (clock w)\<rparr>)
                                     FileHandle (locator h @ [name])
                     in (Inr g, w'))
               else (Inl NotFoundError, w))"

definition children :: "host \<Rightarrow> string list \<Rightarrow> string list" where
  "children w loc = map (last \<circ> fst) (filter (\<lambda>(p, e). p \<noteq> [] \<and> butlast p = loc) (entries w))"

definition removeEntry :: "host \<Rightarrow> handle \<Rightarrow> string \<Rightarrow> bool \<Rightarrow> (error + unit) \<times> host" where
  "removeEntry w h name recursive =
     (if \<not> valid_name name then (Inl (TypeError ''Name is not allowed.''), w)
      else if lookup w (locator h) \<noteq> Some DirEntry then (Inl NotFoundError, w)
      else case lookup w (locator h @ [name]) of
             None \<Rightarrow> (Inl NotFoundError, w)
           | Some e \<Rightarrow>
               if e = DirEntry \<and> \<not> recursive \<and> children w (locator h @ [name]) \<noteq> []
               then (Inl InvalidModificationError, w)
               else (Inr (), w\<lparr>entries := filter (\<lambda>(p, e). \<not> prefix (locator h @ [name]) p) (entries w)\<rparr>))"

definition keys :: "host \<Rightarrow> handle \<Rightarrow> error + string list" where
  "keys w h =
     (if lookup w (locator h) \<noteq> Some DirEntry then Inl NotFoundError
      else Inr (children w (locator h)))"

definition getFile :: "host \<Rightarrow> handle \<Rightarrow> error + string \<times> nat" where
  "getFile w h =
     (case lookup w (locator h) of
        Some (FileEntry content lastModified) \<Rightarrow> Inr (content, lastModified)
      | _ \<Rightarrow> Inl NotFoundError)"

definition createWritable :: "host \<Rightarrow> handle \<Rightarrow> error + unit" where
  "createWritable w h =
     (case lookup w (locator h) of
        Some (FileEntry _ _) \<Rightarrow> Inr ()
      | _ \<Rightarrow> Inl NotFoundError)"

text \<open>\<^verbatim>\<open>writable.close()\<close>: the written data become the content of the file.\<close>

definition commit :: "host \<Rightarrow> handle \<Rightarrow> string \<Rightarrow> host" where
  "commit w h data =
     (case lookup w (locator h) of
        Some (FileEntry _ _) \<Rightarrow>
          w\<lparr>entries := map (\<lambda>(p, e). if p = locator h then (p, FileEntry data (clock w)) else (p, e))
                          (entries w),
            clock := Suc (clock w)\<rparr>
      | _ \<Rightarrow> w)"

subsection \<open>The resolver\<close>

text \<open>
  The state of a \<^verbatim>\<open>FileSystemAccessFileSystem\<close>: the cache \<^verbatim>\<open>_handles\<close>, the handle tree
  it works on, and the walks that were started without being awaited.

  A call of the handle API is answered by the tree when the call is made; the code after
  its \<^verbatim>\<open>await\<close> runs when the answer is delivered. In the walk that \<^verbatim>\<open>getHandle\<close> awaits
  the caller waits for both. The call \<^verbatim>\<open>getHandleParts(remainingPathParts)\<close> inside
  \<^verbatim>\<open>continueWalk\<close> is neither awaited nor returned: it runs at once up to its first
  \<^verbatim>\<open>await\<close>, so its \<^verbatim>\<open>handle.getDirectoryHandle(pathPart)\<close> is made and answered inside
  \<^verbatim>\<open>continueWalk\<close>, and what follows the \<^verbatim>\<open>await\<close> runs later, from the event loop
  (\<open>run_next\<close>), where an error reaches no caller. A task is such a walk at an \<^verbatim>\<open>await\<close>:
  the answer it waits for, and the variables of \<^verbatim>\<open>getHandleParts\<close> that the rest of the
  call reads (\<^verbatim>\<open>handle\<close>, \<^verbatim>\<open>walkingPath\<close>, \<^verbatim>\<open>pathPart\<close>, \<^verbatim>\<open>remainingPathParts\<close>, \<^verbatim>\<open>path\<close>).
\<close>

datatype task =
    AwaitDirectoryHandle "error + handle" "handle option" string string "string list" string
  | AwaitFileHandle "error + handle" string "string list" string

record fsa =
  handles :: "string \<rightharpoonup> handle"
  host :: host
  floating :: "task list"

text \<open>\<^verbatim>\<open>constructor({ handle }) { super(); this._handles.set('/', handle); }\<close>\<close>

definition construct :: "handle \<Rightarrow> host \<Rightarrow> fsa" where
  "construct h w = \<lparr>handles = [''/'' \<mapsto> h], host = w, floating = []\<rparr>"

text \<open>
  \<^verbatim>\<open>error.name\<close>, and \<^verbatim>\<open>error.message === m\<close>. \<^verbatim>\<open>ApiError\<close> (of the core package) extends
  \<^verbatim>\<open>Error\<close> without a name of its own, and its message starts with its code; the message
  test is only ever applied to what the handle API throws.
\<close>

fun error_name :: "error \<Rightarrow> string" where
  "error_name (DOMException name message) = name"
| "error_name (TypeError message) = ''TypeError''"
| "error_name (ApiError code message path) = ''Error''"

fun message_is :: "error \<Rightarrow> string \<Rightarrow> bool" where
  "message_is (DOMException name message) m = (message = m)"
| "message_is (TypeError message) m = (message = m)"
| "message_is (ApiError code message path) m = False"

text \<open>
  \<^verbatim>\<open>handleError(path, error)\<close> always throws; the result is what it throws:
  \<^verbatim>\<open>ApiError.ENOENT(path)\<close> for a \<^verbatim>\<open>NotFoundError\<close>, the error itself otherwise.
\<close>

definition handleError :: "string \<Rightarrow> error \<Rightarrow> error" where
  "handleError path err =
     (if error_name err = ''NotFoundError'' then ApiError ENOENT None path else err)"

text \<open>
  \<^verbatim>\<open>handle.getDirectoryHandle(pathPart)\<close> and \<^verbatim>\<open>handle.getFileHandle(pathPart)\<close> in
  \<^verbatim>\<open>getHandleParts\<close>, where \<^verbatim>\<open>handle\<close> is whatever the cache holds for the walked path:
  nothing, or a file handle, which has neither method.
\<close>

definition call_getDirectoryHandle ::
  "host \<Rightarrow> handle option \<Rightarrow> string \<Rightarrow> bool \<Rightarrow> (error + handle) \<times> host" where
  "call_getDirectoryHandle w ho name create =
     (case ho of
        None \<Rightarrow> (Inl (TypeError ''Cannot read properties of undefined''), w)
      | Some h \<Rightarrow>
          if kind h = DirectoryHandle then getDirectoryHandle w h name create
          else (Inl (TypeError ''handle.getDirectoryHandle is not a function''), w))"

definition call_getFileHandle ::
  "host \<Rightarrow> handle option \<Rightarrow> string \<Rightarrow> bool \<Rightarrow> (error + handle) \<times> host" where
  "call_getFileHandle w ho name create =
     (case ho of
        None \<Rightarrow> (Inl (TypeError ''Cannot read properties of undefined''), w)
      | Some h \<Rightarrow>
          if kind h = DirectoryHandle then getFileHandle w h name create
          else (Inl (TypeError ''handle.getFileHandle is not a function''), w))"

text \<open>
  \<^verbatim>\<open>continueWalk(handle)\<close>: caches the handle under the walking path; with no part left it
  returns \<^verbatim>\<open>this._handles.get(path)\<close>. Otherwise it calls
  \<^verbatim>\<open>getHandleParts(remainingPathParts)\<close> without awaiting or returning it, and returns
  undefined: the call computes its walking path, reads the handle just cached, asks it for
  the directory of the next part and is left waiting for the answer.
\<close>

definition continueWalk ::
  "fsa \<Rightarrow> string \<Rightarrow> string list \<Rightarrow> string \<Rightarrow> handle \<Rightarrow> handle option \<times> fsa" where
  "continueWalk st walkingPath remainingPathParts path h =
     (let st1 = st\<lparr>handles := (handles st)(walkingPath \<mapsto> h)\<rparr>
      in case remainingPathParts of
           [] \<Rightarrow> (handles st1 path, st1)
         | pathPart # rest \<Rightarrow>
             (let ho = handles st1 walkingPath;
                  (r, w) = call_getDirectoryHandle (host st1) ho pathPart False
              in (None, st1\<lparr>host := w, floating := floating st1 @
                    [AwaitDirectoryHandle r ho (join walkingPath pathPart) pathPart rest path]\<rparr>)))"

text \<open>
  The code of \<^verbatim>\<open>getHandleParts\<close> after its awaits. After the answer \<open>r\<close> of
  \<^verbatim>\<open>handle.getFileHandle(pathPart)\<close>: \<^verbatim>\<open>continueWalk\<close> on a handle, \<^verbatim>\<open>handleError\<close> on an
  error. After the answer \<open>r\<close> of \<^verbatim>\<open>handle.getDirectoryHandle(pathPart)\<close>: \<^verbatim>\<open>continueWalk\<close>
  on a handle; on a \<^verbatim>\<open>TypeMismatchError\<close> the call \<^verbatim>\<open>handle.getFileHandle(pathPart)\<close>,
  whose answer is the result \<open>Inr\<close>; on the message \<^verbatim>\<open>Name is not allowed.\<close> a not-found
  error; \<^verbatim>\<open>handleError\<close> otherwise.
\<close>

definition file_answered ::
  "fsa \<Rightarrow> error + handle \<Rightarrow> string \<Rightarrow> string list \<Rightarrow> string \<Rightarrow> (error + handle option) \<times> fsa" where
  "file_answered st r walkingPath remainingPathParts path =
     (case r of
        Inr h \<Rightarrow>
          (let (x, st') = continueWalk st walkingPath remainingPathParts path h in (Inr x, st'))
      | Inl err \<Rightarrow> (Inl (handleError walkingPath err), st))"

definition directory_answered ::
  "fsa \<Rightarrow> error + handle \<Rightarrow> handle option \<Rightarrow> string \<Rightarrow> string \<Rightarrow> string list \<Rightarrow> string
     \<Rightarrow> ((error + handle option) + (error + handle)) \<times> fsa" where
  "directory_answered st r ho walkingPath pathPart remainingPathParts path =
     (case r of
        Inr h \<Rightarrow>
          (let (x, st') = continueWalk st walkingPath remainingPathParts path h
           in (Inl (Inr x), st'))
      | Inl err \<Rightarrow>
          if error_name err = ''TypeMismatchError'' then
            (let (r', w) = call_getFileHandle (host st) ho pathPart False
             in (Inr r', st\<lparr>host := w\<rparr>))
          else if message_is err ''Name is not allowed.'' then
            (Inl (Inl (ApiError ENOENT (Some ''Name is not allowed.'') walkingPath)), st)
          else (Inl (Inl (handleError walkingPath err)), st))"

text \<open>
  The awaited call \<^verbatim>\<open>getHandleParts([pathPart, ...remainingPathParts])\<close> of \<^verbatim>\<open>getHandle\<close>,
  from its start to its result. With no part at all \<^verbatim>\<open>pathPart\<close> is undefined and \<^verbatim>\<open>join\<close>
  throws a TypeError.
\<close>

definition getHandleParts ::
  "fsa \<Rightarrow> string \<Rightarrow> string list \<Rightarrow> string \<Rightarrow> (error + handle option) \<times> fsa" where
  "getHandleParts st walkedPath parts path =
     (case parts of
        [] \<Rightarrow> (Inl (TypeError ''The path argument must be of type string. Received undefined''), st)
      | pathPart # remainingPathParts \<Rightarrow>
          (let walkingPath = join walkedPath pathPart;
               ho = handles st walkedPath;
               (r, w) = call_getDirectoryHandle (host st) ho pathPart False
           in case directory_answered (st\<lparr>host := w\<rparr>) r ho walkingPath pathPart
                     remainingPathParts path of
                (Inl res, st1) \<Rightarrow> (res, st1)
              | (Inr r', st1) \<Rightarrow> file_answered st1 r' walkingPath remainingPathParts path))"

text \<open>
  \<^verbatim>\<open>getHandle(path)\<close>: a cached path returns its handle. Otherwise the walk starts at
  \<^verbatim>\<open>'/'\<close> with the parts after the first slash, and the function ends with
  \<^verbatim>\<open>await getHandleParts(pathParts);\<close>: the result of the walk is dropped and the caller
  gets undefined (\<open>None\<close>).
\<close>

definition getHandle :: "fsa \<Rightarrow> string \<Rightarrow> (error + handle option) \<times> fsa" where
  "getHandle st path =
     (case handles st path of
        Some h \<Rightarrow> (Inr (Some h), st)
      | None \<Rightarrow>
          (case getHandleParts st ''/'' (tl (split_slash path)) path of
             (Inl err, st') \<Rightarrow> (Inl err, st')
           | (Inr r, st') \<Rightarrow> (Inr None, st')))"

text \<open>
  The event loop delivers the answer that the oldest waiting walk waits for: the walk
  runs up to its next \<^verbatim>\<open>await\<close> or to its end, where its result or error is dropped.
\<close>

definition run_next :: "fsa \<Rightarrow> fsa" where
  "run_next st =
     (case floating st of
        [] \<Rightarrow> st
      | t # ts \<Rightarrow>
          (case t of
             AwaitDirectoryHandle r ho walkingPath pathPart remainingPathParts path \<Rightarrow>
               (case directory_answered (st\<lparr>floating := ts\<rparr>) r ho walkingPath pathPart
                       remainingPathParts path of
                  (Inl res, st1) \<Rightarrow> st1
                | (Inr r', st1) \<Rightarrow>
                    st1\<lparr>floating := floating st1 @
                          [AwaitFileHandle r' walkingPath remainingPathParts path]\<rparr>)
           | AwaitFileHandle r walkingPath remainingPathParts path \<Rightarrow>
               snd (file_answered (st\<lparr>floating := ts\<rparr>) r walkingPath remainingPathParts path)))"

text \<open>\<^verbatim>\<open>handle instanceof FileSystemDirectoryHandle\<close>, \<^verbatim>\<open>handle instanceof FileSystemFileHandle\<close>\<close>

definition is_directory :: "handle option \<Rightarrow> bool" where
  "is_directory ho = (case ho of Some h \<Rightarrow> kind h = DirectoryHandle | None \<Rightarrow> False)"

definition is_file :: "handle option \<Rightarrow> bool" where
  "is_file ho = (case ho of Some h \<Rightarrow> kind h = FileHandle | None \<Rightarrow> False)"

text \<open>
  \<^verbatim>\<open>new Stats(FileType.DIRECTORY, 4096)\<close> and
  \<^verbatim>\<open>new Stats(FileType.FILE, size, undefined, undefined, lastModified)\<close>.
\<close>

datatype FileType = FILE | DIRECTORY

record Stats =
  itemType :: FileType
  size_bytes :: nat
  mtimeMs :: "nat option"

definition stat :: "fsa \<Rightarrow> string \<Rightarrow> (error + Stats option) \<times> fsa" where
  "stat st path =
     (case getHandle st path of
        (Inl err, st') \<Rightarrow> (Inl err, st')
      | (Inr None, st') \<Rightarrow> (Inl (ApiError EINVAL None path), st')
      | (Inr (Some h), st') \<Rightarrow>
          if is_directory (Some h)
          then (Inr (Some \<lparr>itemType = DIRECTORY, size_bytes = 4096, mtimeMs = None\<rparr>), st')
          else if is_file (Some h) then
            (case getFile (host st') h of
               Inl err \<Rightarrow> (Inl err, st')
             | Inr (content, lastModified) \<Rightarrow>
                 (Inr (Some \<lparr>itemType = FILE, size_bytes = length content,
                             mtimeMs = Some lastModified\<rparr>), st'))
          else (Inr None, st'))"

definition readdir :: "fsa \<Rightarrow> string \<Rightarrow> (error + string list) \<times> fsa" where
  "readdir st path =
     (case getHandle st path of
        (Inl err, st') \<Rightarrow> (Inl err, st')
      | (Inr ho, st') \<Rightarrow>
          if \<not> is_directory ho then (Inl (ApiError ENOTDIR None path), st')
          else (case keys (host st') (the ho) of
                  Inl err \<Rightarrow> (Inl err, st')
                | Inr ks \<Rightarrow> (Inr (map (join path) ks), st')))"

text \<open>
  The \<^verbatim>\<open>mode\<close> argument of \<^verbatim>\<open>mkdir\<close> is typed \<^verbatim>\<open>any\<close>: callers pass a number, \<^verbatim>\<open>rename\<close>
  passes the string \<^verbatim>\<open>'wx'\<close>, and only an object can have a \<^verbatim>\<open>flag\<close>.
  \<^verbatim>\<open>overwrite = mode && mode.flag && mode.flag.includes('w') && !mode.flag.includes('x')\<close>
\<close>

datatype mode = ModeUndefined | ModeNumber nat | ModeString string | ModeObject "string option"

fun overwrite :: "mode \<Rightarrow> bool" where
  "overwrite (ModeObject (Some flag)) = (flag \<noteq> [] \<and> CHR ''w'' \<in> set flag \<and> CHR ''x'' \<notin> set flag)"
| "overwrite _ = False"

definition unlink :: "fsa \<Rightarrow> string \<Rightarrow> (error + unit) \<times> fsa" where
  "unlink st path =
     (case getHandle st (dirname path) of
        (Inl err, st') \<Rightarrow> (Inl err, st')
      | (Inr ho, st') \<Rightarrow>
          if is_directory ho then
            (case removeEntry (host st') (the ho) (basename path) True of
               (Inl err, w) \<Rightarrow> (Inl (handleError path err), st'\<lparr>host := w\<rparr>)
             | (Inr u, w) \<Rightarrow> (Inr (), st'\<lparr>host := w\<rparr>))
          else (Inr (), st'))"

definition mkdir :: "fsa \<Rightarrow> string \<Rightarrow> mode \<Rightarrow> (error + unit) \<times> fsa" where
  "mkdir st p m =
     (case getHandle st p of
        (Inl err, st1) \<Rightarrow> (Inl err, st1)
      | (Inr existingHandle, st1) \<Rightarrow>
          if existingHandle \<noteq> None \<and> \<not> overwrite m then (Inl (ApiError EEXIST None p), st1)
          else (case getHandle st1 (dirname p) of
                  (Inl err, st2) \<Rightarrow> (Inl err, st2)
                | (Inr ho, st2) \<Rightarrow>
                    if is_directory ho then
                      (case getDirectoryHandle (host st2) (the ho) (basename p) True of
                         (Inl err, w) \<Rightarrow> (Inl err, st2\<lparr>host := w\<rparr>)
                       | (Inr h, w) \<Rightarrow> (Inr (), st2\<lparr>host := w\<rparr>))
                    else (Inr (), st2)))"

text \<open>
  \<^verbatim>\<open>rename\<close>, in three parts. The file branch: read the old file, resolve the destination
  folder, create the new file, write the buffer, call \<^verbatim>\<open>writable.close()\<close> and unlink the
  old path. The close is not awaited; nothing in \<^verbatim>\<open>rename\<close> follows its answer.
\<close>

definition rename_file :: "fsa \<Rightarrow> handle \<Rightarrow> string \<Rightarrow> string \<Rightarrow> (error + unit) \<times> fsa" where
  "rename_file st h oldPath newPath =
     (case getFile (host st) h of
        Inl err \<Rightarrow> (Inl err, st)
      | Inr (buffer, lastModified) \<Rightarrow>
          (case getHandle st (dirname newPath) of
             (Inl err, st1) \<Rightarrow> (Inl err, st1)
           | (Inr destFolder, st1) \<Rightarrow>
               if is_directory destFolder then
                 (case getFileHandle (host st1) (the destFolder) (basename newPath) True of
                    (Inl err, w) \<Rightarrow> (Inl err, st1\<lparr>host := w\<rparr>)
                  | (Inr newFile, w) \<Rightarrow>
                      (case createWritable w newFile of
                         Inl err \<Rightarrow> (Inl err, st1\<lparr>host := w\<rparr>)
                       | Inr u \<Rightarrow> unlink (st1\<lparr>host := commit w newFile buffer\<rparr>) oldPath))
               else (Inr (), st1)))"

text \<open>
  The start of the directory branch:
  \<^verbatim>\<open>const files = await this.readdir(oldPath, cred); await this.mkdir(newPath, 'wx', cred);\<close>
\<close>

definition rename_directory_setup :: "fsa \<Rightarrow> string \<Rightarrow> string \<Rightarrow> (error + string list) \<times> fsa" where
  "rename_directory_setup st oldPath newPath =
     (case readdir st oldPath of
        (Inl err, st1) \<Rightarrow> (Inl err, st1)
      | (Inr files, st1) \<Rightarrow>
          (case mkdir st1 newPath (ModeString ''wx'') of
             (Inl err, st2) \<Rightarrow> (Inl err, st2)
           | (Inr u, st2) \<Rightarrow> (Inr files, st2)))"

text \<open>\<^verbatim>\<open>catch (err) { handleError(oldPath, err); }\<close> around the whole body of \<^verbatim>\<open>rename\<close>.\<close>

definition rethrow :: "string \<Rightarrow> (error + unit) \<times> fsa \<Rightarrow> (error + unit) \<times> fsa" where
  "rethrow path r =
     (case r of
        (Inl err, st) \<Rightarrow> (Inl (handleError path err), st)
      | (Inr u, st) \<Rightarrow> (Inr u, st))"

text \<open>
  \<^verbatim>\<open>rename\<close> calls itself on the entries that \<^verbatim>\<open>readdir\<close> lists, so its first argument
  bounds the depth of the recursion: \<open>None\<close> is a run that needs more. \<open>rename_children\<close>
  is the loop
  \<^verbatim>\<open>for (const file of files) { await this.rename(join(oldPath, file), join(newPath, file), cred); await this.unlink(oldPath, cred); }\<close>
\<close>

fun rename :: "nat \<Rightarrow> fsa \<Rightarrow> string \<Rightarrow> string \<Rightarrow> ((error + unit) \<times> fsa) option"
  and rename_children ::
    "nat \<Rightarrow> fsa \<Rightarrow> string \<Rightarrow> string \<Rightarrow> string list \<Rightarrow> ((error + unit) \<times> fsa) option"
where
  "rename 0 st oldPath newPath = None"
| "rename (Suc n) st oldPath newPath =
     map_option (rethrow oldPath)
       (case getHandle st oldPath of
          (Inl err, st1) \<Rightarrow> Some (Inl err, st1)
        | (Inr ho, st1) \<Rightarrow>
            if is_directory ho then
              (case rename_directory_setup st1 oldPath newPath of
                 (Inl err, st2) \<Rightarrow> Some (Inl err, st2)
               | (Inr files, st2) \<Rightarrow>
                   if files = [] then Some (unlink st2 oldPath)
                   else rename_children n st2 oldPath newPath files)
            else if is_file ho then Some (rename_file st1 (the ho) oldPath newPath)
            else Some (Inr (), st1))"
| "rename_children n st oldPath newPath [] = Some (Inr (), st)"
| "rename_children n st oldPath newPath (file # files) =
     (case rename n st (join oldPath file) (join newPath file) of
        None \<Rightarrow> None
      | Some (Inl err, st1) \<Rightarrow> Some (Inl err, st1)
      | Some (Inr u, st1) \<Rightarrow>
          (case unlink st1 oldPath of
             (Inl err, st2) \<Rightarrow> Some (Inl err, st2)
           | (Inr u', st2) \<Rightarrow> rename_children n st2 oldPath newPath files))"

subsection \<open>Paths of names and what exists in the handle tree\<close>

text \<open>
  The path string of a list of names: \<^verbatim>\<open>/\<close> for the root, \<^verbatim>\<open>/a/b\<close> for the names
  \<^verbatim>\<open>a\<close>, \<^verbatim>\<open>b\<close>.
\<close>

definition absolute :: "string list \<Rightarrow> string" where
  "absolute names = (if names = [] then ''/'' else concat (map (\<lambda>n. CHR ''/'' # n) names))"

text \<open>
  Every segment of a path exists in the tree below the location \<^verbatim>\<open>loc\<close>: each segment
  but the last is a directory, the last is a directory or a file.
\<close>

fun segments_exist :: "host \<Rightarrow> string list \<Rightarrow> string list \<Rightarrow> bool" where
  "segments_exist w loc [] = (lookup w loc \<noteq> None)"
| "segments_exist w loc (n # ns) = (lookup w loc = Some DirEntry \<and> segments_exist w (loc @ [n]) ns)"

subsection \<open>Handle trees for the examples\<close>

definition root_handle :: handle where
  "root_handle = \<lparr>kind = DirectoryHandle, locator = [], hid = 0\<rparr>"

text \<open>A root with the single file \<^verbatim>\<open>a.txt\<close> of content \<^verbatim>\<open>hi\<close>, and a fresh resolver on it.\<close>

definition single_file_host :: host where
  "single_file_host =
     \<lparr>entries = [([], DirEntry), ([''a.txt''], FileEntry ''hi'' 1000)], next_handle = 1, clock = 1001\<rparr>"

definition fresh :: fsa where
  "fresh = construct root_handle single_file_host"

text \<open>A root with the single directory \<^verbatim>\<open>d\<close>.\<close>

definition single_directory_host :: host where
  "single_directory_host =
     \<lparr>entries = [([], DirEntry), ([''d''], DirEntry)], next_handle = 1, clock = 1001\<rparr>"

text \<open>
  A root with the directory \<^verbatim>\<open>d\<close> of two files and the empty directory \<^verbatim>\<open>p\<close>, and a
  resolver that has resolved \<^verbatim>\<open>/d\<close> and \<^verbatim>\<open>/p\<close> before; then its states after
  \<^verbatim>\<open>readdir('/d')\<close>, after \<^verbatim>\<open>mkdir('/p/e', 'wx')\<close> and after the rename of the first child.
\<close>

definition two_children_host :: host where
  "two_children_host =
     \<lparr>entries = [([], DirEntry), ([''d''], DirEntry), ([''d'', ''x''], FileEntry ''1'' 1000),
                 ([''d'', ''y''], FileEntry ''2'' 1000), ([''p''], DirEntry)],
      next_handle = 3, clock = 1001\<rparr>"

definition warm :: fsa where
  "warm = \<lparr>handles = [''/'' \<mapsto> root_handle,
                       ''/d'' \<mapsto> \<lparr>kind = DirectoryHandle, locator = [''d''], hid = 1\<rparr>,
                       ''/p'' \<mapsto> \<lparr>kind = DirectoryHandle, locator = [''p''], hid = 2\<rparr>],
            host = two_children_host, floating = []\<rparr>"

definition warm_listed :: fsa where
  "warm_listed = snd (readdir warm ''/d'')"

definition warm_made :: fsa where
  "warm_made = snd (mkdir warm_listed ''/p/e'' (ModeString ''wx''))"

definition warm_first :: fsa where
  "warm_first = snd (the (rename (Suc 0) warm_made ''/d/d/x'' ''/p/e/d/x''))"

text \<open>A root with the directory \<^verbatim>\<open>d\<close>, the directory \<^verbatim>\<open>e\<close> in it and a file in \<^verbatim>\<open>e\<close>.\<close>

definition nested_host :: host where
  "nested_host =
     \<lparr>entries = [([], DirEntry), ([''d''], DirEntry), ([''d'', ''e''], DirEntry),
                 ([''d'', ''e'', ''f.txt''], FileEntry ''hi'' 1000)],
      next_handle = 1, clock = 1001\<rparr>"

section \<open>Properties of the bridge\<close>

lemma isRPCMessage_marker:
  "isRPCMessage v = Inr True \<longleftrightarrow> has_marker v"
  by (cases v) (auto simp: isRPCMessage_def map_of_eq_None_iff [symmetric]
      split: option.splits bool.splits)

lemma isRPCMessage_foreign:
  "v \<noteq> JNull \<Longrightarrow> \<not> has_marker v \<Longrightarrow> isRPCMessage v = Inr False"
  by (cases v) (auto simp: isRPCMessage_def map_of_eq_None_iff [symmetric]
      split: option.splits bool.splits)

lemma onmessage_foreign_ignored:
  "v \<noteq> JNull \<Longrightarrow> \<not> has_marker v \<Longrightarrow> onmessage s v = (Inr (), s)"
  by (simp add: onmessage_def isRPCMessage_foreign)

text \<open>
  C5, at the message \<^verbatim>\<open>null\<close>: it lacks the protocol marker, yet the handler does not
  return: \<^verbatim>\<open>typeof null\<close> is \<^verbatim>\<open>'object'\<close> and \<^verbatim>\<open>'isBFS' in null\<close> throws a TypeError.
  The state of the bridge is the one before the message.
\<close>

theorem onmessage_null_throws:
  "\<not> has_marker JNull \<and>
   onmessage s JNull =
     (Inl (TypeError ''Cannot use in operator to search for a key in null''), s)"
  by (simp add: onmessage_def isRPCMessage_def)

text \<open>
  C6: a message with the protocol marker whose method is \<^verbatim>\<open>metadata\<close> stores its value
  as the metadata and sets the initialized flag, whatever the state was before (so also
  when the bridge is already initialized); the pending map, the promises, the id counter
  and the posted messages are untouched.
\<close>

theorem onmessage_metadata:
  assumes "has_marker v" and "js_get v ''method'' = JStr ''metadata''"
  shows "onmessage s v =
           (Inr (), s\<lparr>metadata := js_get v ''value'', isInitialized := True\<rparr>)"
  using assms by (simp add: onmessage_def isRPCMessage_marker [symmetric])

theorem onmessage_metadata_witness:
  "onmessage (snd (rpc (new_bridge\<lparr>metadata := JStr ''old'', isInitialized := True\<rparr>) ''stat'' []))
     (JObj [(''isBFS'', JBool True), (''id'', JNum 0), (''method'', JStr ''metadata''),
            (''value'', JStr ''new'')])
   = (Inr (), (snd (rpc (new_bridge\<lparr>metadata := JStr ''old'', isInitialized := True\<rparr>) ''stat'' []))
        \<lparr>metadata := JStr ''new'', isInitialized := True\<rparr>)"
  using onmessage_metadata
    [of "JObj [(''isBFS'', JBool True), (''id'', JNum 0), (''method'', JStr ''metadata''),
               (''value'', JStr ''new'')]"
        "snd (rpc (new_bridge\<lparr>metadata := JStr ''old'', isInitialized := True\<rparr>) ''stat'' [])"]
  by simp

text \<open>
  C10: a message with the protocol marker and a method other than \<^verbatim>\<open>metadata\<close> whose
  id is not a key of the pending map makes the handler throw a TypeError (the
  destructuring of the failed lookup), with the whole state, so every pending operation,
  unchanged.
\<close>

theorem onmessage_unknown_id_throws:
  assumes "has_marker v" and "js_get v ''method'' \<noteq> JStr ''metadata''"
    and "requests_get s (js_get v ''id'') = None"
  shows "onmessage s v =
           (Inl (TypeError ''Cannot destructure property resolve of undefined''), s)"
  using assms by (simp add: onmessage_def isRPCMessage_marker [symmetric])

theorem onmessage_unknown_id_throws_witness:
  "onmessage (snd (rpc new_bridge ''stat'' []))
     (JObj [(''isBFS'', JBool True), (''id'', JNum 5), (''method'', JStr ''stat''),
            (''value'', JNull)])
   = (Inl (TypeError ''Cannot destructure property resolve of undefined''),
      snd (rpc new_bridge ''stat'' []))"
  using onmessage_unknown_id_throws
    [of "JObj [(''isBFS'', JBool True), (''id'', JNum 5), (''method'', JStr ''stat''),
               (''value'', JNull)]"
        "snd (rpc new_bridge ''stat'' [])"]
  by (simp add: requests_get_def rpc_def new_bridge_def)

lemma onmessage_answer:
  "answers v k \<Longrightarrow> requests s k = Some p \<Longrightarrow>
   onmessage s v = (Inr (), s\<lparr>requests := (requests s)(k := None),
                             promises := settle p (outcome v) (promises s)\<rparr>)"
  by (simp add: onmessage_def answers_def isRPCMessage_marker [symmetric] outcome_def
      requests_get_def requests_delete_def Let_def)

lemma onmessage_no_answer:
  "\<not> (\<exists>k. answers v k \<and> requests s k \<noteq> None) \<Longrightarrow>
   requests (snd (onmessage s v)) = requests s \<and>
   promises (snd (onmessage s v)) = promises s \<and>
   currentID (snd (onmessage s v)) = currentID s \<and>
   posted (snd (onmessage s v)) = posted s"
  by (cases "isRPCMessage v")
     (auto simp: onmessage_def answers_def isRPCMessage_marker [symmetric]
      requests_get_def Let_def split: option.splits bool.splits)

lemma onmessage_counter:
  "currentID (snd (onmessage s v)) = currentID s \<and> posted (snd (onmessage s v)) = posted s"
  by (cases "isRPCMessage v")
     (auto simp: onmessage_def requests_delete_def Let_def split: option.splits bool.splits)

lemma removal_is_answer:
  assumes "requests s k \<noteq> None" and "requests (step s e) k = None"
  shows "\<exists>v. e = Message v \<and> answers v k"
proof (cases e)
  case (Request m args)
  with assms show ?thesis by (auto simp: step_def rpc_def Let_def split: if_splits)
next
  case (Message v)
  show ?thesis
  proof (cases "\<exists>k'. answers v k' \<and> requests s k' \<noteq> None")
    case True
    then obtain k' p where a: "answers v k'" and p: "requests s k' = Some p" by auto
    from onmessage_answer [OF a p] assms Message have "k' = k"
      by (auto simp: step_def split: if_splits)
    with a Message show ?thesis by simp
  next
    case False
    from onmessage_no_answer [OF False] assms Message show ?thesis by (simp add: step_def)
  qed
qed


lemma step_Request_fields:
  "currentID (step s (Request m args)) = js_succ (currentID s)"
  "requests (step s (Request m args)) = (requests s)(currentID s \<mapsto> length (promises s))"
  "promises (step s (Request m args)) = promises s @ [Pending]"
  "sent_ids (step s (Request m args)) = sent_ids s @ [JNum (int (currentID s))]"
  by (simp_all add: step_def rpc_def Let_def sent_ids_def)

lemma step_Message_fields:
  "currentID (step s (Message v)) = currentID s"
  "sent_ids (step s (Message v)) = sent_ids s"
  using onmessage_counter [of s v] by (simp_all add: step_def sent_ids_def)

lemma step_Message_requests_le:
  "requests (step s (Message v)) k \<noteq> None \<Longrightarrow> requests s k \<noteq> None"
proof (cases "\<exists>k'. answers v k' \<and> requests s k' \<noteq> None")
  case True
  then obtain k' p where a: "answers v k'" and p: "requests s k' = Some p" by auto
  assume "requests (step s (Message v)) k \<noteq> None"
  with onmessage_answer [OF a p] show ?thesis by (auto simp: step_def split: if_splits)
next
  case False
  assume "requests (step s (Message v)) k \<noteq> None"
  with onmessage_no_answer [OF False] show ?thesis by (simp add: step_def)
qed

lemma run_Cons: "run s (e # es) = run (step s e) es"
  by (simp add: run_def)

lemma run_Nil: "run s [] = s"
  by (simp add: run_def)

lemma n_requests_simps:
  "n_requests [] = 0"
  "n_requests (Request m args # es) = Suc (n_requests es)"
  "n_requests (Message v # es) = n_requests es"
  by (simp_all add: n_requests_def)

lemma sent_ids_run:
  "currentID s + n_requests evs \<le> 2 ^ 53 \<Longrightarrow>
   sent_ids (run s evs) =
     sent_ids s @ map (\<lambda>n. JNum (int n)) [currentID s ..< currentID s + n_requests evs]"
proof (induction evs arbitrary: s)
  case Nil
  then show ?case by (simp add: run_Nil n_requests_simps)
next
  case (Cons e es)
  show ?case
  proof (cases e)
    case (Request m args)
    with Cons.prems have lt: "currentID s < 2 ^ 53" and
      b: "currentID (step s e) + n_requests es \<le> 2 ^ 53"
      by (simp_all add: n_requests_simps step_Request_fields js_succ_def)
    have c: "currentID (step s e) = Suc (currentID s)"
      using lt Request by (simp add: step_Request_fields js_succ_def)
    have "[currentID s ..< currentID s + Suc (n_requests es)]
          = currentID s # [Suc (currentID s) ..< Suc (currentID s) + n_requests es]"
      by (simp add: upt_rec)
    with Cons.IH [OF b] c Request show ?thesis
      by (simp add: run_Cons n_requests_simps step_Request_fields)
  next
    case (Message v)
    with Cons.prems have b: "currentID (step s e) + n_requests es \<le> 2 ^ 53"
      by (simp add: n_requests_simps step_Message_fields)
    with Cons.IH [OF b] Message show ?thesis
      by (simp add: run_Cons n_requests_simps step_Message_fields)
  qed
qed

lemma removed_by_bound:
  "ids_below_counter s \<Longrightarrow> currentID s + n_requests evs \<le> 2 ^ 53 \<Longrightarrow>
   length (removed_by k s evs) \<le> (if requests s k \<noteq> None \<or> currentID s \<le> k then 1 else 0)"
proof (induction evs arbitrary: s)
  case Nil
  then show ?case by simp
next
  case (Cons e es)
  show ?case
  proof (cases e)
    case (Request m args)
    with Cons.prems have lt: "currentID s < 2 ^ 53"
      by (simp add: n_requests_simps)
    have c: "currentID (step s e) = Suc (currentID s)"
      using lt Request by (simp add: step_Request_fields js_succ_def)
    have r: "requests (step s e) = (requests s)(currentID s \<mapsto> length (promises s))"
      using Request by (simp add: step_Request_fields)
    have inv: "ids_below_counter (step s e)"
      using Cons.prems(1) c r by (auto simp: ids_below_counter_def less_Suc_eq)
    have b: "currentID (step s e) + n_requests es \<le> 2 ^ 53"
      using Cons.prems(2) c Request by (simp add: n_requests_simps)
    have nr: "\<not> (requests s k \<noteq> None \<and> requests (step s e) k = None)"
      using r by auto
    from Cons.IH [OF inv b] nr c r show ?thesis
      by (auto split: if_splits)
  next
    case (Message v)
    have c: "currentID (step s e) = currentID s"
      using Message by (simp add: step_Message_fields)
    have le: "\<And>j. requests (step s e) j \<noteq> None \<Longrightarrow> requests s j \<noteq> None"
      using Message step_Message_requests_le by blast
    have inv: "ids_below_counter (step s e)"
      using Cons.prems(1) c le unfolding ids_below_counter_def by metis
    have b: "currentID (step s e) + n_requests es \<le> 2 ^ 53"
      using Cons.prems(2) c Message by (simp add: n_requests_simps)
    have lt: "requests s k \<noteq> None \<Longrightarrow> k < currentID s"
      using Cons.prems(1) by (simp add: ids_below_counter_def)
    from Cons.IH [OF inv b] c le [of k] lt show ?thesis
      by (auto split: if_splits)
  qed
qed

lemma removed_by_answer:
  "e \<in> set (removed_by k s evs) \<Longrightarrow> \<exists>v. e = Message v \<and> answers v k"
proof (induction evs arbitrary: s)
  case Nil
  then show ?case by simp
next
  case (Cons a es)
  then show ?case
    using removal_is_answer [of s k a] by (auto split: if_splits)
qed

text \<open>
  C4: in every run of one bridge instance from its construction, the ids of the posted
  envelopes are \<open>0, 1, 2, \<dots>\<close> in the order of the requests, so each request carries a
  fresh id, larger than all ids before it; an id leaves the pending map at most once
  in the run, and the event at which it leaves is the delivery of a response envelope
  that carries this id. The counter is a JavaScript number, so the run is one of at most
  \<open>2^53\<close> requests, the range in which the counter counts.
\<close>

theorem correlation_ids_fresh_and_removed_once:
  assumes "n_requests evs \<le> 2 ^ 53"
  shows "sent_ids (run new_bridge evs) = map (\<lambda>n. JNum (int n)) [0 ..< n_requests evs]
       \<and> length (removed_by k new_bridge evs) \<le> 1
       \<and> (\<forall>e \<in> set (removed_by k new_bridge evs). \<exists>v. e = Message v \<and> answers v k)"
proof -
  have i: "ids_below_counter new_bridge"
    by (simp add: ids_below_counter_def new_bridge_def)
  have c: "currentID new_bridge + n_requests evs \<le> 2 ^ 53"
    using assms by (simp add: new_bridge_def)
  have "sent_ids (run new_bridge evs) = map (\<lambda>n. JNum (int n)) [0 ..< n_requests evs]"
    using sent_ids_run [OF c] by (simp add: new_bridge_def sent_ids_def)
  moreover have "length (removed_by k new_bridge evs) \<le> 1"
    using removed_by_bound [OF i c, of k] by (simp split: if_splits)
  moreover have "\<forall>e \<in> set (removed_by k new_bridge evs). \<exists>v. e = Message v \<and> answers v k"
    using removed_by_answer by blast
  ultimately show ?thesis by simp
qed

theorem correlation_ids_fresh_and_removed_once_witness:
  "n_requests [Request ''stat'' [JStr ''/a''], Request ''readdir'' [JStr ''/''],
       Message (response 1 ''readdir'' (JArr [])), Message (response 1 ''readdir'' (JArr [])),
       Message (response 0 ''stat'' JNull)] \<le> 2 ^ 53
   \<and> sent_ids (run new_bridge [Request ''stat'' [JStr ''/a''], Request ''readdir'' [JStr ''/''],
       Message (response 1 ''readdir'' (JArr [])), Message (response 1 ''readdir'' (JArr [])),
       Message (response 0 ''stat'' JNull)]) = [JNum 0, JNum 1]
   \<and> removed_by 1 new_bridge [Request ''stat'' [JStr ''/a''], Request ''readdir'' [JStr ''/''],
       Message (response 1 ''readdir'' (JArr [])), Message (response 1 ''readdir'' (JArr [])),
       Message (response 0 ''stat'' JNull)] = [Message (response 1 ''readdir'' (JArr []))]"
  using correlation_ids_fresh_and_removed_once
    [of "[Request ''stat'' [JStr ''/a''], Request ''readdir'' [JStr ''/''],
       Message (response 1 ''readdir'' (JArr [])), Message (response 1 ''readdir'' (JArr [])),
       Message (response 0 ''stat'' JNull)]" 1]
  by (simp add: run_def step_def rpc_def onmessage_def isRPCMessage_def Let_def requests_get_def
      requests_delete_def settle_def js_succ_def new_bridge_def response_def
      sent_ids_def n_requests_def)

lemma requests_pending_new: "requests_pending new_bridge"
  by (simp add: requests_pending_def new_bridge_def)

lemma requests_pendingD:
  assumes "requests_pending s" and "requests s k = Some p"
  shows "p < length (promises s)" and "promises s ! p = Pending"
    and "requests s k' = Some p \<Longrightarrow> k' = k"
  using assms unfolding requests_pending_def by blast+

lemma requests_pendingI:
  assumes "\<And>k p. requests s k = Some p \<Longrightarrow> p < length (promises s) \<and> promises s ! p = Pending"
    and "\<And>k k' p. requests s k = Some p \<Longrightarrow> requests s k' = Some p \<Longrightarrow> k = k'"
  shows "requests_pending s"
  using assms unfolding requests_pending_def by blast

lemma requests_pending_Request:
  assumes wf: "requests_pending s"
  shows "requests_pending (step s (Request m args))"
proof (rule requests_pendingI)
  fix k p
  assume "requests (step s (Request m args)) k = Some p"
  then have h: "((requests s)(currentID s \<mapsto> length (promises s))) k = Some p"
    by (simp add: step_Request_fields)
  show "p < length (promises (step s (Request m args)))
      \<and> promises (step s (Request m args)) ! p = Pending"
  proof (cases "k = currentID s")
    case True
    with h show ?thesis by (auto simp: step_Request_fields)
  next
    case False
    with h have "requests s k = Some p" by simp
    from requests_pendingD(1,2) [OF wf this] show ?thesis
      by (simp add: step_Request_fields nth_append)
  qed
next
  fix k k' p
  assume "requests (step s (Request m args)) k = Some p"
    and "requests (step s (Request m args)) k' = Some p"
  then have h: "((requests s)(currentID s \<mapsto> length (promises s))) k = Some p"
    and h': "((requests s)(currentID s \<mapsto> length (promises s))) k' = Some p"
    by (simp_all add: step_Request_fields)
  have old: "\<And>j. j \<noteq> currentID s \<Longrightarrow>
      ((requests s)(currentID s \<mapsto> length (promises s))) j = Some p \<Longrightarrow> p < length (promises s)"
    using requests_pendingD(1) [OF wf] by simp
  show "k = k'"
  proof (cases "k = currentID s")
    case True
    with h have "p = length (promises s)" by simp
    with old [of k'] h' True show ?thesis by (cases "k' = currentID s") auto
  next
    case False
    with h have k: "requests s k = Some p" by simp
    from old [OF False h] h' have "k' \<noteq> currentID s" by (auto split: if_splits)
    with h' have "requests s k' = Some p" by simp
    from requests_pendingD(3) [OF wf k this] show ?thesis by simp
  qed
qed

lemma step_Message_answer:
  assumes "answers v k" and "requests s k = Some p"
  shows "step s (Message v) = s\<lparr>requests := (requests s)(k := None),
                                 promises := settle p (outcome v) (promises s)\<rparr>"
  using onmessage_answer [OF assms] by (simp add: step_def)

lemma step_Message_no_answer:
  assumes "\<not> (\<exists>k. answers v k \<and> requests s k \<noteq> None)"
  shows "requests (step s (Message v)) = requests s"
    and "promises (step s (Message v)) = promises s"
  using onmessage_no_answer [OF assms] by (simp_all add: step_def)

lemma requests_pending_Message:
  assumes wf: "requests_pending s"
  shows "requests_pending (step s (Message v))"
proof (cases "\<exists>k. answers v k \<and> requests s k \<noteq> None")
  case True
  then obtain k p where a: "answers v k" and p: "requests s k = Some p" by auto
  let ?s' = "s\<lparr>requests := (requests s)(k := None),
                promises := settle p (outcome v) (promises s)\<rparr>"
  have "requests_pending ?s'"
  proof (rule requests_pendingI)
    fix j q
    assume "requests ?s' j = Some q"
    then have j: "j \<noteq> k" and q: "requests s j = Some q" by (auto split: if_splits)
    from requests_pendingD(3) [OF wf p, of j] j q have "q \<noteq> p" by auto
    with requests_pendingD(1,2) [OF wf q]
    show "q < length (promises ?s') \<and> promises ?s' ! q = Pending"
      by (simp add: settle_def)
  next
    fix j j' q
    assume "requests ?s' j = Some q" and "requests ?s' j' = Some q"
    then have "requests s j = Some q" and "requests s j' = Some q"
      by (auto split: if_splits)
    from requests_pendingD(3) [OF wf this] show "j = j'" by simp
  qed
  then show ?thesis by (simp add: step_Message_answer [OF a p])
next
  case False
  from step_Message_no_answer [OF False] wf show ?thesis
    by (simp add: requests_pending_def)
qed

lemma requests_pending_step: "requests_pending s \<Longrightarrow> requests_pending (step s e)"
  by (cases e) (simp_all add: requests_pending_Request requests_pending_Message)

lemma requests_pending_run: "requests_pending s \<Longrightarrow> requests_pending (run s evs)"
  by (induction evs arbitrary: s) (simp_all add: run_Nil run_Cons requests_pending_step)

lemma other_answer_keeps:
  assumes wf: "requests_pending s" and p: "requests s k = Some p" and n: "\<not> answers m k"
  shows "requests (step s (Message m)) k = Some p"
proof (cases "\<exists>j. answers m j \<and> requests s j \<noteq> None")
  case True
  then obtain j q where a: "answers m j" and q: "requests s j = Some q" by auto
  with n have "j \<noteq> k" by auto
  then show ?thesis
    unfolding step_Message_answer [OF a q] using p by simp
next
  case False
  from step_Message_no_answer(1) [OF False] p show ?thesis by simp
qed

lemma others_keep:
  "requests_pending s \<Longrightarrow> requests s k = Some p \<Longrightarrow> \<forall>m \<in> set ms. \<not> answers m k \<Longrightarrow>
   requests (run s (map Message ms)) k = Some p"
proof (induction ms arbitrary: s)
  case Nil
  then show ?case by (simp add: run_Nil)
next
  case (Cons m ms)
  from Cons.prems have n: "\<not> answers m k" and r: "\<forall>m \<in> set ms. \<not> answers m k" by simp_all
  have wf': "requests_pending (step s (Message m))"
    using Cons.prems(1) by (rule requests_pending_step)
  from Cons.IH [OF wf' other_answer_keeps [OF Cons.prems(1) Cons.prems(2) n] r]
  show ?case by (simp add: run_Cons)
qed

text \<open>
  C7: in a state reached by one bridge instance, let the id \<open>k\<close> be pending with the
  promise \<open>p\<close>, let \<open>v\<close> be a response envelope for \<open>k\<close>, and let any messages that are
  not responses for \<open>k\<close> (responses for other ids, metadata, foreign messages) arrive
  first, in any order. Then \<open>p\<close> is still pending when \<open>v\<close> arrives, and the handler
  returns with exactly two changes: \<open>k\<close> is removed from the pending map, and the promise
  \<open>p\<close>, no other, is settled: rejected with the value when it is an error object,
  resolved with it otherwise.
\<close>

theorem response_completes_its_operation:
  assumes "s = run new_bridge evs" and "requests s k = Some p"
    and "answers v k" and "\<forall>m \<in> set ms. \<not> answers m k"
  shows "promises (run s (map Message ms)) ! p = Pending
       \<and> onmessage (run s (map Message ms)) v =
           (Inr (), (run s (map Message ms))
              \<lparr>requests := (requests (run s (map Message ms)))(k := None),
               promises := (promises (run s (map Message ms)))[p := outcome v]\<rparr>)"
proof -
  let ?t = "run s (map Message ms)"
  have wf: "requests_pending s"
    using assms(1) requests_pending_new requests_pending_run by simp
  then have wft: "requests_pending ?t" by (rule requests_pending_run)
  have pt: "requests ?t k = Some p"
    using others_keep [OF wf assms(2) assms(4)] .
  from wft pt have pend: "p < length (promises ?t)" "promises ?t ! p = Pending"
    by (auto simp: requests_pending_def)
  then have "settle p (outcome v) (promises ?t) = (promises ?t)[p := outcome v]"
    by (simp add: settle_def)
  with onmessage_answer [OF assms(3) pt] pend show ?thesis by simp
qed

theorem response_completes_its_operation_witness:
  "requests (run new_bridge eight_requests) 7 = Some 7
   \<and> answers (response 7 ''readdir'' (JArr [JStr ''x''])) 7
   \<and> \<not> answers (response 5 ''stat'' (JErr ''ENOENT'')) 7
   \<and> promises (run (run new_bridge eight_requests)
        (map Message [response 5 ''stat'' (JErr ''ENOENT'')])) ! 7 = Pending
   \<and> promises (snd (onmessage (run (run new_bridge eight_requests)
        (map Message [response 5 ''stat'' (JErr ''ENOENT'')]))
        (response 7 ''readdir'' (JArr [JStr ''x''])))) ! 7 = Resolved (JArr [JStr ''x''])
   \<and> promises (snd (onmessage (run (run new_bridge eight_requests)
        (map Message [response 5 ''stat'' (JErr ''ENOENT'')]))
        (response 7 ''readdir'' (JArr [JStr ''x''])))) ! 6 = Pending"
proof -
  have h1: "requests (run new_bridge eight_requests) 7 = Some 7"
    by (simp add: run_def step_def rpc_def onmessage_def isRPCMessage_def Let_def requests_get_def
      requests_delete_def settle_def js_succ_def new_bridge_def response_def eight_requests_def)
  have h2: "answers (response 7 ''readdir'' (JArr [JStr ''x''])) 7"
    by (simp add: answers_def response_def)
  have h3: "\<forall>m \<in> set [response 5 ''stat'' (JErr ''ENOENT'')]. \<not> answers m 7"
    by (simp add: answers_def response_def)
  have len: "length (promises (run (run new_bridge eight_requests)
        (map Message [response 5 ''stat'' (JErr ''ENOENT'')]))) = 8"
    by (simp add: run_def step_def rpc_def onmessage_def isRPCMessage_def Let_def requests_get_def
      requests_delete_def settle_def js_succ_def new_bridge_def response_def eight_requests_def)
  have six: "promises (run (run new_bridge eight_requests)
        (map Message [response 5 ''stat'' (JErr ''ENOENT'')])) ! 6 = Pending"
    by (simp add: run_def step_def rpc_def onmessage_def isRPCMessage_def Let_def requests_get_def
      requests_delete_def settle_def js_succ_def new_bridge_def response_def eight_requests_def)
  have out: "outcome (response 7 ''readdir'' (JArr [JStr ''x''])) = Resolved (JArr [JStr ''x''])"
    by (simp add: outcome_def response_def)
  have h4: "\<not> answers (response 5 ''stat'' (JErr ''ENOENT'')) 7"
    using h3 by simp
  from response_completes_its_operation [OF refl h1 h2 h3] h1 h2 h4 len six out
  show ?thesis by simp
qed

section \<open>Properties of the resolver\<close>

lemma getHandle_cached:
  "handles st path = Some h \<Longrightarrow> getHandle st path = (Inr (Some h), st)"
  by (simp add: getHandle_def)

subsection \<open>The walk along an existing path\<close>

lemma split_slash_no_slash: "CHR ''/'' \<notin> set s \<Longrightarrow> split_slash s = [s]"
  by (induction s) auto

lemma split_slash_not_Nil: "split_slash s \<noteq> []"
  by (induction s) (auto split: list.splits)

lemma split_slash_append: "split_slash (a @ CHR ''/'' # b) = split_slash a @ split_slash b"
proof (induction a)
  case Nil
  then show ?case by simp
next
  case (Cons c a)
  obtain x xs where x: "split_slash a = x # xs"
    using split_slash_not_Nil [of a] by (cases "split_slash a") auto
  with Cons show ?case by simp
qed

lemma split_slash_names:
  "CHR ''/'' \<notin> set n \<Longrightarrow> \<forall>m \<in> set ns. CHR ''/'' \<notin> set m \<Longrightarrow>
   split_slash (n @ concat (map (\<lambda>m. CHR ''/'' # m) ns)) = n # ns"
proof (induction ns arbitrary: n)
  case Nil
  then show ?case by (simp add: split_slash_no_slash)
next
  case (Cons m ms)
  have "split_slash (n @ CHR ''/'' # (m @ concat (map (\<lambda>m. CHR ''/'' # m) ms)))
        = split_slash n @ split_slash (m @ concat (map (\<lambda>m. CHR ''/'' # m) ms))"
    by (rule split_slash_append)
  with Cons show ?case by (simp add: split_slash_no_slash)
qed

lemma split_slash_absolute:
  assumes "names \<noteq> []" and "\<forall>n \<in> set names. valid_name n"
  shows "split_slash (absolute names) = [] # names"
proof -
  from assms(2) have "\<forall>m \<in> set names. CHR ''/'' \<notin> set m" by (simp add: valid_name_def)
  from split_slash_names [of "[]" names, OF _ this] assms(1) show ?thesis
    by (simp add: absolute_def)
qed

lemma absolute_inject:
  assumes "xs \<noteq> []" and "ys \<noteq> []" and "\<forall>n \<in> set xs. valid_name n" and "\<forall>n \<in> set ys. valid_name n"
    and "absolute xs = absolute ys"
  shows "xs = ys"
proof -
  have "[] # xs = split_slash (absolute xs)"
    using split_slash_absolute [OF assms(1,3)] by simp
  also have "\<dots> = split_slash (absolute ys)"
    by (simp only: assms(5))
  also have "\<dots> = [] # ys"
    using split_slash_absolute [OF assms(2,4)] by simp
  finally show ?thesis by simp
qed

lemma normalizeSegments_names:
  "\<forall>n \<in> set ns. valid_name n \<Longrightarrow> normalizeSegments a res ns = res @ ns"
proof (induction ns arbitrary: res)
  case Nil
  then show ?case by simp
next
  case (Cons n ns)
  from Cons.prems have "n \<noteq> []" "n \<noteq> ''.''" "n \<noteq> ''..''"
    by (simp_all add: valid_name_def)
  then have "normalizeSegments a res (n # ns) = normalizeSegments a (res @ [n]) ns"
    by simp
  also have "\<dots> = (res @ [n]) @ ns"
    using Cons.prems by (intro Cons.IH) simp
  finally show ?case by simp
qed

lemma join_slash_names:
  "ns \<noteq> [] \<Longrightarrow> CHR ''/'' # join_slash ns = concat (map (\<lambda>n. CHR ''/'' # n) ns)"
  by (induction ns rule: join_slash.induct) auto

lemma join_slash_not_Nil: "ns \<noteq> [] \<Longrightarrow> hd ns \<noteq> [] \<Longrightarrow> join_slash ns \<noteq> []"
  by (induction ns rule: join_slash.induct) auto

lemma normalize_path_absolute:
  assumes ne: "names \<noteq> []" and v: "\<forall>n \<in> set names. valid_name n"
  shows "normalize_path (absolute names) = absolute names"
proof -
  let ?p = "concat (map (\<lambda>n. CHR ''/'' # n) names)"
  from ne have p: "?p \<noteq> []" and h: "hd ?p = CHR ''/''"
    by (cases names; simp)+
  from ne v have ln: "last names \<noteq> []" and ls: "CHR ''/'' \<notin> set (last names)"
    by (auto simp: valid_name_def)
  from ne have "last ?p = last (CHR ''/'' # last names)"
    by (induction names) (auto simp: last_append)
  moreover have "last (last names) \<in> set (last names)"
    using ln by (rule last_in_set)
  ultimately have l: "last ?p \<noteq> CHR ''/''"
    using ln ls by (metis last_ConsR)
  from ne v have hn: "hd names \<noteq> []" by (cases names) (auto simp: valid_name_def)
  have "normalizeString ?p False = join_slash names"
    using split_slash_absolute [OF ne v] ne v
    by (simp add: normalizeString_def absolute_def normalizeSegments_names)
  with p h l join_slash_not_Nil [OF ne hn] join_slash_names [OF ne] ne show ?thesis
    by (simp add: normalize_path_def absolute_def Let_def)
qed

lemma join_absolute:
  assumes v: "\<forall>n \<in> set pre. valid_name n" and n: "valid_name name"
  shows "join (absolute pre) name = absolute (pre @ [name])"
proof (cases "pre = []")
  case True
  from n have ne: "name \<noteq> []" and ns: "CHR ''/'' \<notin> set name"
    and nd: "name \<noteq> ''.''" "name \<noteq> ''..''"
    by (simp_all add: valid_name_def)
  from ne ns have l: "last name \<noteq> CHR ''/''"
    using last_in_set by metis
  have "split_slash (''//'' @ name) = [[], [], name]"
    using ns by (simp add: split_slash_no_slash)
  then have "normalizeString (''//'' @ name) False = name"
    using ne nd by (simp add: normalizeString_def)
  then show ?thesis
    using ne l True by (simp add: join_def normalize_path_def Let_def absolute_def)
next
  case False
  from n have ne: "name \<noteq> []" by (simp add: valid_name_def)
  from False have a: "absolute pre \<noteq> []" by (cases pre) (simp_all add: absolute_def)
  have e: "absolute pre @ CHR ''/'' # name = absolute (pre @ [name])"
    using False by (simp add: absolute_def)
  have "normalize_path (absolute (pre @ [name])) = absolute (pre @ [name])"
    using v n by (intro normalize_path_absolute) auto
  with a ne e show ?thesis by (simp add: join_def)
qed


lemma lookup_next_handle: "lookup (w\<lparr>next_handle := n\<rparr>) loc = lookup w loc"
  by (simp add: lookup_def)

lemma answer_directory:
  assumes "valid_name n" and "kind hp = DirectoryHandle"
    and "lookup w (locator hp) = Some DirEntry" and "lookup w (locator hp @ [n]) = Some DirEntry"
  shows "call_getDirectoryHandle w (Some hp) n False =
           (Inr \<lparr>kind = DirectoryHandle, locator = locator hp @ [n], hid = next_handle w\<rparr>,
            w\<lparr>next_handle := Suc (next_handle w)\<rparr>)"
  using assms by (simp add: call_getDirectoryHandle_def getDirectoryHandle_def grant_def)

lemma answer_mismatch:
  assumes "valid_name n" and "kind hp = DirectoryHandle"
    and "lookup w (locator hp) = Some DirEntry"
    and "lookup w (locator hp @ [n]) = Some (FileEntry c t)"
  shows "call_getDirectoryHandle w (Some hp) n False = (Inl TypeMismatchError, w)"
  using assms by (simp add: call_getDirectoryHandle_def getDirectoryHandle_def)

lemma answer_file:
  assumes "valid_name n" and "kind hp = DirectoryHandle"
    and "lookup w (locator hp) = Some DirEntry"
    and "lookup w (locator hp @ [n]) = Some (FileEntry c t)"
  shows "call_getFileHandle w (Some hp) n False =
           (Inr \<lparr>kind = FileHandle, locator = locator hp @ [n], hid = next_handle w\<rparr>,
            w\<lparr>next_handle := Suc (next_handle w)\<rparr>)"
  using assms by (simp add: call_getFileHandle_def getFileHandle_def grant_def)

lemma lookup_entries: "entries w = entries w' \<Longrightarrow> lookup w loc = lookup w' loc"
  by (simp add: lookup_def)

lemma segments_exist_entries:
  "entries w = entries w' \<Longrightarrow> segments_exist w loc ns = segments_exist w' loc ns"
  by (induction ns arbitrary: loc) (simp_all add: lookup_def)

lemma run_next_idle: "floating s = [] \<Longrightarrow> run_next s = s"
  by (simp add: run_next_def)

lemma run_next_directory_last:
  assumes "floating s = [AwaitDirectoryHandle (Inr g) ho wp part [] path]"
  shows "floating (run_next s) = [] \<and> handles (run_next s) = (handles s)(wp \<mapsto> g)
       \<and> host (run_next s) = host s"
  using assms by (simp add: run_next_def directory_answered_def continueWalk_def Let_def)

lemma run_next_directory_more:
  assumes "floating s = [AwaitDirectoryHandle (Inr g) ho wp part (next # rest) path]"
  shows "floating (run_next s) =
           [AwaitDirectoryHandle (fst (call_getDirectoryHandle (host s) (Some g) next False))
              (Some g) (join wp next) next rest path]
       \<and> handles (run_next s) = (handles s)(wp \<mapsto> g)
       \<and> host (run_next s) = snd (call_getDirectoryHandle (host s) (Some g) next False)"
  using assms
  by (simp add: run_next_def directory_answered_def continueWalk_def Let_def split: prod.splits)

lemma run_next_mismatch:
  assumes "floating s = [AwaitDirectoryHandle (Inl TypeMismatchError) ho wp part rem path]"
  shows "floating (run_next s) =
           [AwaitFileHandle (fst (call_getFileHandle (host s) ho part False)) wp rem path]
       \<and> handles (run_next s) = handles s
       \<and> host (run_next s) = snd (call_getFileHandle (host s) ho part False)"
  using assms
  by (simp add: run_next_def directory_answered_def TypeMismatchError_def Let_def
      split: prod.splits)

lemma run_next_file_last:
  assumes "floating s = [AwaitFileHandle (Inr g) wp [] path]"
  shows "floating (run_next s) = [] \<and> handles (run_next s) = (handles s)(wp \<mapsto> g)
       \<and> host (run_next s) = host s"
  using assms by (simp add: run_next_def file_answered_def continueWalk_def Let_def)


lemma prefix_snoc_cases:
  assumes "q \<noteq> []" and "prefix q (part # next # rest)"
  shows "q = [part] \<or> (\<exists>q'. q = part # q' \<and> q' \<noteq> [] \<and> prefix q' (next # rest))"
  using assms by (cases q) (auto simp: prefix_Cons)

lemma walk_settles:
  assumes "\<forall>n \<in> set (pre @ part # rem). valid_name n"
    and "segments_exist (host s) loc (part # rem)"
    and "kind hp = DirectoryHandle" and "locator hp = loc"
    and "floating s = [AwaitDirectoryHandle r (Some hp) (absolute (pre @ [part])) part rem path]"
    and "entries w0 = entries (host s)"
    and "r = fst (call_getDirectoryHandle w0 (Some hp) part False)"
  shows "\<exists>m \<le> length rem + 2.
           floating ((run_next ^^ m) s) = []
         \<and> entries (host ((run_next ^^ m) s)) = entries (host s)
         \<and> (\<forall>q. q \<noteq> [] \<and> prefix q (part # rem) \<longrightarrow>
               (\<exists>h. handles ((run_next ^^ m) s) (absolute (pre @ q)) = Some h
                    \<and> locator h = loc @ q))
         \<and> (\<forall>k. (\<forall>q. q \<noteq> [] \<and> prefix q (part # rem) \<longrightarrow> k \<noteq> absolute (pre @ q)) \<longrightarrow>
               handles ((run_next ^^ m) s) k = handles s k)"
  using assms
proof (induction rem arbitrary: s pre part loc hp r w0)
  case Nil
  let ?wp = "absolute (pre @ [part])"
  from Nil.prems(1) have v: "valid_name part" by simp
  from Nil.prems(2) have d: "lookup (host s) loc = Some DirEntry"
    and e: "lookup (host s) (loc @ [part]) \<noteq> None" by simp_all
  from d Nil.prems(6) have d0: "lookup w0 (locator hp) = Some DirEntry"
    using Nil.prems(4) by (simp add: lookup_def)
  from d have dh: "lookup (host s) (locator hp) = Some DirEntry"
    using Nil.prems(4) by simp
  from e obtain en where en: "lookup (host s) (loc @ [part]) = Some en" by auto
  then have en0: "lookup w0 (locator hp @ [part]) = Some en"
    using Nil.prems(4,6) by (simp add: lookup_def)
  have pq: "\<And>q. q \<noteq> [] \<and> prefix q [part] \<longleftrightarrow> q = [part]"
    by (auto simp: prefix_Cons)
  show ?case
  proof (cases en)
    case DirEntry
    let ?g = "\<lparr>kind = DirectoryHandle, locator = locator hp @ [part], hid = next_handle w0\<rparr>"
    from answer_directory [OF v Nil.prems(3) d0] en0 DirEntry Nil.prems(7)
    have r: "r = Inr ?g" by simp
    from run_next_directory_last [of s ?g "Some hp" ?wp part path] Nil.prems(5) r
    have f: "floating (run_next s) = []" and h: "handles (run_next s) = (handles s)(?wp \<mapsto> ?g)"
      and w: "host (run_next s) = host s" by simp_all
    have "floating ((run_next ^^ 1) s) = []
         \<and> entries (host ((run_next ^^ 1) s)) = entries (host s)
         \<and> (\<forall>q. q \<noteq> [] \<and> prefix q [part] \<longrightarrow>
               (\<exists>h. handles ((run_next ^^ 1) s) (absolute (pre @ q)) = Some h
                    \<and> locator h = loc @ q))
         \<and> (\<forall>k. (\<forall>q. q \<noteq> [] \<and> prefix q [part] \<longrightarrow> k \<noteq> absolute (pre @ q)) \<longrightarrow>
               handles ((run_next ^^ 1) s) k = handles s k)"
      using f h w Nil.prems(4) by (simp add: pq)
    then show ?thesis by (intro exI [of _ 1]) simp
  next
    case (FileEntry c t)
    let ?g = "\<lparr>kind = FileHandle, locator = locator hp @ [part], hid = next_handle (host s)\<rparr>"
    from answer_mismatch [OF v Nil.prems(3) d0] en0 FileEntry Nil.prems(7)
    have r: "r = Inl TypeMismatchError" by simp
    from answer_file [OF v Nil.prems(3) dh] en FileEntry Nil.prems(4)
    have a: "call_getFileHandle (host s) (Some hp) part False =
               (Inr ?g, (host s)\<lparr>next_handle := Suc (next_handle (host s))\<rparr>)" by simp
    from run_next_mismatch [of s "Some hp" ?wp part "[]" path] Nil.prems(5) r a
    have f1: "floating (run_next s) = [AwaitFileHandle (Inr ?g) ?wp [] path]"
      and h1: "handles (run_next s) = handles s"
      and w1: "entries (host (run_next s)) = entries (host s)" by simp_all
    from run_next_file_last [OF f1] h1 w1
    have f: "floating (run_next (run_next s)) = []"
      and h: "handles (run_next (run_next s)) = (handles s)(?wp \<mapsto> ?g)"
      and w: "entries (host (run_next (run_next s))) = entries (host s)" by simp_all
    have two: "(run_next ^^ 2) s = run_next (run_next s)"
      by (simp add: numeral_2_eq_2)
    have "floating ((run_next ^^ 2) s) = []
         \<and> entries (host ((run_next ^^ 2) s)) = entries (host s)
         \<and> (\<forall>q. q \<noteq> [] \<and> prefix q [part] \<longrightarrow>
               (\<exists>h. handles ((run_next ^^ 2) s) (absolute (pre @ q)) = Some h
                    \<and> locator h = loc @ q))
         \<and> (\<forall>k. (\<forall>q. q \<noteq> [] \<and> prefix q [part] \<longrightarrow> k \<noteq> absolute (pre @ q)) \<longrightarrow>
               handles ((run_next ^^ 2) s) k = handles s k)"
      unfolding two using f h w Nil.prems(4) by (simp add: pq)
    then show ?thesis by (intro exI [of _ 2]) simp
  qed
next
  case (Cons nxt rest)
  let ?wp = "absolute (pre @ [part])"
  let ?g = "\<lparr>kind = DirectoryHandle, locator = locator hp @ [part], hid = next_handle w0\<rparr>"
  from Cons.prems(1) have v: "valid_name part" and vn: "valid_name nxt" by simp_all
  from Cons.prems(2) have d: "lookup (host s) loc = Some DirEntry"
    and e: "lookup (host s) (loc @ [part]) = Some DirEntry"
    and se: "segments_exist (host s) (loc @ [part]) (nxt # rest)" by simp_all
  from d e Cons.prems(4,6) have d0: "lookup w0 (locator hp) = Some DirEntry"
    and e0: "lookup w0 (locator hp @ [part]) = Some DirEntry"
    by (simp_all add: lookup_def)
  from answer_directory [OF v Cons.prems(3) d0 e0] Cons.prems(7)
  have r: "r = Inr ?g" by simp
  let ?s1 = "run_next s"
  let ?r1 = "fst (call_getDirectoryHandle (host s) (Some ?g) nxt False)"
  have j: "join ?wp nxt = absolute ((pre @ [part]) @ [nxt])"
    using Cons.prems(1) by (intro join_absolute) auto
  from run_next_directory_more [of s ?g "Some hp" ?wp part nxt rest path] Cons.prems(5) r j
  have f1: "floating ?s1 =
      [AwaitDirectoryHandle ?r1 (Some ?g) (absolute ((pre @ [part]) @ [nxt])) nxt rest path]"
    and h1: "handles ?s1 = (handles s)(?wp \<mapsto> ?g)"
    and w1: "host ?s1 = snd (call_getDirectoryHandle (host s) (Some ?g) nxt False)"
    by simp_all
  have ent: "entries (host ?s1) = entries (host s)"
    unfolding w1
    by (simp add: call_getDirectoryHandle_def getDirectoryHandle_def grant_def
        split: option.splits entry.splits)
  have v1: "\<forall>n \<in> set ((pre @ [part]) @ nxt # rest). valid_name n"
    using Cons.prems(1) by simp
  have se1: "segments_exist (host ?s1) (loc @ [part]) (nxt # rest)"
    by (subst segments_exist_entries [OF ent]) (rule se)
  have kg: "kind ?g = DirectoryHandle" and lg: "locator ?g = loc @ [part]"
    using Cons.prems(4) by simp_all
  from Cons.IH [OF v1 se1 kg lg f1 ent [symmetric] refl]
  obtain m where ih: "m \<le> length rest + 2 \<and>
           floating ((run_next ^^ m) ?s1) = []
         \<and> entries (host ((run_next ^^ m) ?s1)) = entries (host ?s1)
         \<and> (\<forall>q. q \<noteq> [] \<and> prefix q (nxt # rest) \<longrightarrow>
               (\<exists>h. handles ((run_next ^^ m) ?s1) (absolute ((pre @ [part]) @ q)) = Some h
                    \<and> locator h = (loc @ [part]) @ q))
         \<and> (\<forall>k. (\<forall>q. q \<noteq> [] \<and> prefix q (nxt # rest) \<longrightarrow>
                     k \<noteq> absolute ((pre @ [part]) @ q)) \<longrightarrow>
               handles ((run_next ^^ m) ?s1) k = handles ?s1 k)"
    by (elim exE)
  then have m: "m \<le> length rest + 2"
    and f: "floating ((run_next ^^ m) ?s1) = []"
    and w: "entries (host ((run_next ^^ m) ?s1)) = entries (host ?s1)"
    by simp_all
  from ih have c: "\<And>q. q \<noteq> [] \<Longrightarrow> prefix q (nxt # rest) \<Longrightarrow>
              \<exists>h. handles ((run_next ^^ m) ?s1) (absolute ((pre @ [part]) @ q)) = Some h
                 \<and> locator h = (loc @ [part]) @ q"
    by (elim conjE) (erule_tac x = q in allE, simp)
  from ih have u0: "\<forall>k. (\<forall>q. q \<noteq> [] \<and> prefix q (nxt # rest) \<longrightarrow>
                     k \<noteq> absolute ((pre @ [part]) @ q)) \<longrightarrow>
               handles ((run_next ^^ m) ?s1) k = handles ?s1 k"
    by (elim conjE)
  have u: "\<And>k. (\<And>q. q \<noteq> [] \<Longrightarrow> prefix q (nxt # rest) \<Longrightarrow>
                  k \<noteq> absolute ((pre @ [part]) @ q)) \<Longrightarrow>
              handles ((run_next ^^ m) ?s1) k = handles ?s1 k"
  proof -
    fix k
    assume "\<And>q. q \<noteq> [] \<Longrightarrow> prefix q (nxt # rest) \<Longrightarrow> k \<noteq> absolute ((pre @ [part]) @ q)"
    then have "\<forall>q. q \<noteq> [] \<and> prefix q (nxt # rest) \<longrightarrow> k \<noteq> absolute ((pre @ [part]) @ q)"
      by (intro allI impI) (elim conjE)
    with u0 show "handles ((run_next ^^ m) ?s1) k = handles ?s1 k"
      by (elim allE [of _ k] impE)
  qed
  have sm: "(run_next ^^ Suc m) s = (run_next ^^ m) ?s1"
    by (simp add: funpow_swap1)
  have diff: "\<And>q. q \<noteq> [] \<Longrightarrow> prefix q (nxt # rest) \<Longrightarrow> ?wp \<noteq> absolute ((pre @ [part]) @ q)"
  proof
    fix q
    assume q: "q \<noteq> []" "prefix q (nxt # rest)" and eq: "?wp = absolute ((pre @ [part]) @ q)"
    from q(2) have "set q \<subseteq> set (nxt # rest)" by (rule set_mono_prefix)
    with Cons.prems(1) have "\<forall>n \<in> set ((pre @ [part]) @ q). valid_name n" by auto
    moreover from Cons.prems(1) have "\<forall>n \<in> set (pre @ [part]). valid_name n" by simp
    ultimately have "pre @ [part] = (pre @ [part]) @ q"
      using eq by (intro absolute_inject) auto
    with q(1) show False by simp
  qed
  have top: "handles ((run_next ^^ Suc m) s) ?wp = Some ?g"
    unfolding sm using u [of ?wp] diff h1 by simp
  have cached: "\<forall>q. q \<noteq> [] \<and> prefix q (part # nxt # rest) \<longrightarrow>
               (\<exists>h. handles ((run_next ^^ Suc m) s) (absolute (pre @ q)) = Some h
                    \<and> locator h = loc @ q)"
  proof (intro allI impI)
    fix q
    assume "q \<noteq> [] \<and> prefix q (part # nxt # rest)"
    with prefix_snoc_cases [of q part nxt rest]
    consider "q = [part]" | q' where "q = part # q'" "q' \<noteq> []" "prefix q' (nxt # rest)"
      by blast
    then show "\<exists>h. handles ((run_next ^^ Suc m) s) (absolute (pre @ q)) = Some h
                    \<and> locator h = loc @ q"
    proof cases
      case 1
      with top lg show ?thesis by simp
    next
      case 2
      from c [OF 2(2,3)] 2(1) show ?thesis unfolding sm by simp
    qed
  qed
  have unchanged: "\<forall>k. (\<forall>q. q \<noteq> [] \<and> prefix q (part # nxt # rest) \<longrightarrow> k \<noteq> absolute (pre @ q)) \<longrightarrow>
               handles ((run_next ^^ Suc m) s) k = handles s k"
  proof (intro allI impI)
    fix k
    assume a: "\<forall>q. q \<noteq> [] \<and> prefix q (part # nxt # rest) \<longrightarrow> k \<noteq> absolute (pre @ q)"
    then have k0: "k \<noteq> ?wp" by (auto simp: prefix_Cons)
    have "\<And>q. q \<noteq> [] \<Longrightarrow> prefix q (nxt # rest) \<Longrightarrow> k \<noteq> absolute ((pre @ [part]) @ q)"
    proof -
      fix q
      assume "q \<noteq> []" "prefix q (nxt # rest)"
      then have "part # q \<noteq> [] \<and> prefix (part # q) (part # nxt # rest)" by simp
      with a have "k \<noteq> absolute (pre @ part # q)" by blast
      then show "k \<noteq> absolute ((pre @ [part]) @ q)" by simp
    qed
    from u [OF this] h1 k0 show "handles ((run_next ^^ Suc m) s) k = handles s k"
      unfolding sm by simp
  qed
  have "floating ((run_next ^^ Suc m) s) = []
      \<and> entries (host ((run_next ^^ Suc m) s)) = entries (host s)"
    unfolding sm using f w ent by simp
  with cached unchanged m show ?case
    by (intro exI [of _ "Suc m"]) simp
qed


lemma getHandle_uncached_cases:
  assumes "handles st path = None"
  shows "fst (getHandle st path) = Inr None \<or> (\<exists>err. fst (getHandle st path) = Inl err)"
  using assms by (auto simp: getHandle_def split: prod.splits sum.splits)

lemma stat_undefined:
  assumes "getHandle st path = (Inr None, st')"
  shows "stat st path = (Inl (ApiError EINVAL None path), st')"
  using assms by (simp add: stat_def)

lemma readdir_undefined:
  assumes "getHandle st path = (Inr None, st')"
  shows "readdir st path = (Inl (ApiError ENOTDIR None path), st')"
  using assms by (simp add: readdir_def is_directory_def)

lemma funpow_idle: "floating s = [] \<Longrightarrow> (run_next ^^ n) s = s"
  by (induction n) (simp_all add: run_next_idle)

lemma funpow_settled:
  assumes "floating ((run_next ^^ m) s) = []" and "m \<le> n"
  shows "(run_next ^^ n) s = (run_next ^^ m) s"
proof -
  from assms(2) obtain d where "n = d + m" by (metis le_add_diff_inverse2)
  then have "(run_next ^^ n) s = (run_next ^^ d) ((run_next ^^ m) s)"
    by (simp add: funpow_add)
  with funpow_idle [OF assms(1)] show ?thesis by simp
qed

lemma getHandle_first_segment:
  assumes u: "handles st path = None" and p: "path = absolute (n1 # rest)"
    and v: "\<forall>n \<in> set (n1 # rest). valid_name n"
    and r: "handles st ''/'' = Some rh" and k: "kind rh = DirectoryHandle"
    and e: "segments_exist (host st) (locator rh) (n1 # rest)"
  shows "\<exists>st' g. getHandle st path = (Inr None, st')
         \<and> handles st' = (handles st)(absolute [n1] \<mapsto> g)
         \<and> locator g = locator rh @ [n1]
         \<and> entries (host st') = entries (host st)
         \<and> (rest = [] \<longrightarrow> floating st' = floating st)
         \<and> (\<forall>n2 rest'. rest = n2 # rest' \<longrightarrow>
               kind g = DirectoryHandle
             \<and> (\<exists>w0. entries w0 = entries (host st)
                 \<and> floating st' = floating st @
                     [AwaitDirectoryHandle (fst (call_getDirectoryHandle w0 (Some g) n2 False))
                        (Some g) (absolute ([n1] @ [n2])) n2 rest' path]))"
proof -
  from v have v1: "valid_name n1" by simp
  have tl: "tl (split_slash path) = n1 # rest"
    using split_slash_absolute [of "n1 # rest"] v p by simp
  have j: "join ''/'' n1 = absolute [n1]"
    using join_absolute [of "[]" n1] v1 by (simp add: absolute_def)
  from e have d: "lookup (host st) (locator rh) = Some DirEntry"
    and se: "segments_exist (host st) (locator rh @ [n1]) rest" by simp_all
  show ?thesis
  proof (cases rest)
    case Nil
    with se obtain en where en: "lookup (host st) (locator rh @ [n1]) = Some en" by auto
    show ?thesis
    proof (cases en)
      case DirEntry
      let ?g = "\<lparr>kind = DirectoryHandle, locator = locator rh @ [n1], hid = next_handle (host st)\<rparr>"
      let ?st' = "st\<lparr>host := (host st)\<lparr>next_handle := Suc (next_handle (host st))\<rparr>,
                     handles := (handles st)(absolute [n1] \<mapsto> ?g)\<rparr>"
      from answer_directory [OF v1 k d] en DirEntry
      have "getHandleParts st ''/'' [n1] path = (Inr (handles ?st' path), ?st')"
        by (simp add: getHandleParts_def r j directory_answered_def continueWalk_def Let_def)
      with u tl Nil have "getHandle st path = (Inr None, ?st')"
        by (simp add: getHandle_def)
      with Nil show ?thesis by (intro exI [of _ ?st'] exI [of _ ?g]) simp
    next
      case (FileEntry c t)
      let ?g = "\<lparr>kind = FileHandle, locator = locator rh @ [n1], hid = next_handle (host st)\<rparr>"
      let ?st' = "st\<lparr>host := (host st)\<lparr>next_handle := Suc (next_handle (host st))\<rparr>,
                     handles := (handles st)(absolute [n1] \<mapsto> ?g)\<rparr>"
      from answer_mismatch [OF v1 k d] answer_file [OF v1 k d] en FileEntry
      have "getHandleParts st ''/'' [n1] path = (Inr (handles ?st' path), ?st')"
        by (simp add: getHandleParts_def r j directory_answered_def file_answered_def
            continueWalk_def Let_def TypeMismatchError_def)
      with u tl Nil have "getHandle st path = (Inr None, ?st')"
        by (simp add: getHandle_def)
      with Nil show ?thesis by (intro exI [of _ ?st'] exI [of _ ?g]) simp
    qed
  next
    case (Cons n2 rest')
    with se have en: "lookup (host st) (locator rh @ [n1]) = Some DirEntry" by simp
    let ?g = "\<lparr>kind = DirectoryHandle, locator = locator rh @ [n1], hid = next_handle (host st)\<rparr>"
    let ?w1 = "(host st)\<lparr>next_handle := Suc (next_handle (host st))\<rparr>"
    let ?a = "call_getDirectoryHandle ?w1 (Some ?g) n2 False"
    let ?st' = "st\<lparr>host := snd ?a,
                   handles := (handles st)(absolute [n1] \<mapsto> ?g),
                   floating := floating st @
                     [AwaitDirectoryHandle (fst ?a) (Some ?g) (join (absolute [n1]) n2) n2 rest' path]\<rparr>"
    from answer_directory [OF v1 k d en]
    have "getHandleParts st ''/'' (n1 # n2 # rest') path = (Inr None, ?st')"
      by (simp add: getHandleParts_def r j directory_answered_def continueWalk_def Let_def
          split: prod.splits)
    with u tl Cons have g: "getHandle st path = (Inr None, ?st')"
      by (simp add: getHandle_def)
    have ent: "entries (snd ?a) = entries (host st)"
      by (simp add: call_getDirectoryHandle_def getDirectoryHandle_def grant_def
          split: option.splits entry.splits)
    have w1: "entries ?w1 = entries (host st)" by simp
    have j2: "join (absolute [n1]) n2 = absolute ([n1] @ [n2])"
      using v Cons by (intro join_absolute) auto
    have "\<exists>w0. entries w0 = entries (host st)
                 \<and> floating ?st' = floating st @
                     [AwaitDirectoryHandle (fst (call_getDirectoryHandle w0 (Some ?g) n2 False))
                        (Some ?g) (absolute ([n1] @ [n2])) n2 rest' path]"
      using w1 j2 by (intro exI [of _ ?w1]) simp
    with g ent Cons show ?thesis
      by (intro exI [of _ ?st'] exI [of _ ?g]) simp
  qed
qed


lemma walk_of_existing_path:
  assumes u: "handles st path = None" and p: "path = absolute names" and ne: "names \<noteq> []"
    and v: "\<forall>n \<in> set names. valid_name n"
    and r: "handles st ''/'' = Some rh" and k: "kind rh = DirectoryHandle"
    and e: "segments_exist (host st) (locator rh) names"
  shows "\<exists>st'. getHandle st path = (Inr None, st')
       \<and> (floating st = [] \<longrightarrow>
            floating ((run_next ^^ length names) st') = []
          \<and> (\<forall>q. q \<noteq> [] \<and> prefix q names \<longrightarrow>
                (\<exists>h. handles ((run_next ^^ length names) st') (absolute q) = Some h
                     \<and> locator h = locator rh @ q)))"
proof -
  from ne obtain n1 rest where names: "names = n1 # rest" by (cases names) auto
  from getHandle_first_segment [OF u p [unfolded names] v [unfolded names] r k e [unfolded names]]
  obtain st' g where g: "getHandle st path = (Inr None, st')"
    and h: "handles st' = (handles st)(absolute [n1] \<mapsto> g)"
    and l: "locator g = locator rh @ [n1]"
    and ent: "entries (host st') = entries (host st)"
    and f0: "rest = [] \<longrightarrow> floating st' = floating st"
    and f1: "\<forall>n2 rest'. rest = n2 # rest' \<longrightarrow>
               kind g = DirectoryHandle
             \<and> (\<exists>w0. entries w0 = entries (host st)
                 \<and> floating st' = floating st @
                     [AwaitDirectoryHandle (fst (call_getDirectoryHandle w0 (Some g) n2 False))
                        (Some g) (absolute ([n1] @ [n2])) n2 rest' path])"
    by blast
  have "floating st = [] \<longrightarrow>
            floating ((run_next ^^ length names) st') = []
          \<and> (\<forall>q. q \<noteq> [] \<and> prefix q names \<longrightarrow>
                (\<exists>h. handles ((run_next ^^ length names) st') (absolute q) = Some h
                     \<and> locator h = locator rh @ q))"
  proof
    assume quiet: "floating st = []"
    show "floating ((run_next ^^ length names) st') = []
          \<and> (\<forall>q. q \<noteq> [] \<and> prefix q names \<longrightarrow>
                (\<exists>h. handles ((run_next ^^ length names) st') (absolute q) = Some h
                     \<and> locator h = locator rh @ q))"
    proof (cases rest)
      case Nil
      with f0 quiet have f: "floating st' = []" by simp
      have pq: "\<And>q. q \<noteq> [] \<and> prefix q [n1] \<longleftrightarrow> q = [n1]"
        by (auto simp: prefix_Cons)
      have "(run_next ^^ length names) st' = st'"
        using f by (rule funpow_idle)
      then show ?thesis
        using f h l names Nil by (simp only: pq) simp
    next
      case (Cons n2 rest')
      with f1 obtain w0 where kg: "kind g = DirectoryHandle"
        and w0: "entries w0 = entries (host st)"
        and fl: "floating st' = floating st @
                     [AwaitDirectoryHandle (fst (call_getDirectoryHandle w0 (Some g) n2 False))
                        (Some g) (absolute ([n1] @ [n2])) n2 rest' path]"
        by blast
      from fl quiet have fl': "floating st' =
                     [AwaitDirectoryHandle (fst (call_getDirectoryHandle w0 (Some g) n2 False))
                        (Some g) (absolute ([n1] @ [n2])) n2 rest' path]" by simp
      have v': "\<forall>n\<in>set ([n1] @ n2 # rest'). valid_name n"
        using v names Cons by simp
      from e names Cons have "segments_exist (host st) (locator rh @ [n1]) (n2 # rest')"
        by simp
      then have se: "segments_exist (host st') (locator rh @ [n1]) (n2 # rest')"
        by (subst segments_exist_entries [OF ent])
      from w0 ent have w0': "entries w0 = entries (host st')" by simp
      from walk_settles [OF v' se kg l fl' w0' refl]
      obtain m where ih: "m \<le> length rest' + 2 \<and>
           floating ((run_next ^^ m) st') = []
         \<and> entries (host ((run_next ^^ m) st')) = entries (host st')
         \<and> (\<forall>q. q \<noteq> [] \<and> prefix q (n2 # rest') \<longrightarrow>
               (\<exists>h. handles ((run_next ^^ m) st') (absolute ([n1] @ q)) = Some h
                    \<and> locator h = (locator rh @ [n1]) @ q))
         \<and> (\<forall>k. (\<forall>q. q \<noteq> [] \<and> prefix q (n2 # rest') \<longrightarrow> k \<noteq> absolute ([n1] @ q)) \<longrightarrow>
               handles ((run_next ^^ m) st') k = handles st' k)"
        by (elim exE)
      then have m: "m \<le> length names" and f: "floating ((run_next ^^ m) st') = []"
        using names Cons by simp_all
      have fin: "(run_next ^^ length names) st' = (run_next ^^ m) st'"
        using f m by (rule funpow_settled)
      have diff: "\<forall>q. q \<noteq> [] \<and> prefix q (n2 # rest') \<longrightarrow> absolute [n1] \<noteq> absolute ([n1] @ q)"
      proof (intro allI impI notI)
        fix q
        assume q: "q \<noteq> [] \<and> prefix q (n2 # rest')" and eq: "absolute [n1] = absolute ([n1] @ q)"
        from q have "set q \<subseteq> set (n2 # rest')" by (intro set_mono_prefix) simp
        with v' have "\<forall>n \<in> set ([n1] @ q). valid_name n" by auto
        moreover from v' have "\<forall>n \<in> set [n1]. valid_name n" by simp
        ultimately have "[n1] = [n1] @ q"
          using eq by (intro absolute_inject) auto
        with q show False by simp
      qed
      from ih have "(\<forall>q. q \<noteq> [] \<and> prefix q (n2 # rest') \<longrightarrow> absolute [n1] \<noteq> absolute ([n1] @ q)) \<longrightarrow>
               handles ((run_next ^^ m) st') (absolute [n1]) = handles st' (absolute [n1])"
        by (elim conjE) (erule_tac x = "absolute [n1]" in allE)
      with diff h have top: "handles ((run_next ^^ m) st') (absolute [n1]) = Some g" by simp
      have "\<forall>q. q \<noteq> [] \<and> prefix q names \<longrightarrow>
                (\<exists>h. handles ((run_next ^^ m) st') (absolute q) = Some h
                     \<and> locator h = locator rh @ q)"
      proof (intro allI impI)
        fix q
        assume "q \<noteq> [] \<and> prefix q names"
        with prefix_snoc_cases [of q n1 n2 rest'] names Cons
        consider "q = [n1]" | q' where "q = n1 # q'" "q' \<noteq> []" "prefix q' (n2 # rest')"
          by blast
        then show "\<exists>h. handles ((run_next ^^ m) st') (absolute q) = Some h
                     \<and> locator h = locator rh @ q"
        proof cases
          case 1
          with top l show ?thesis by simp
        next
          case 2
          from ih have "q' \<noteq> [] \<and> prefix q' (n2 # rest') \<longrightarrow>
               (\<exists>h. handles ((run_next ^^ m) st') (absolute ([n1] @ q')) = Some h
                    \<and> locator h = (locator rh @ [n1]) @ q')"
            by (elim conjE) (erule_tac x = q' in allE)
          with 2 show ?thesis by simp
        qed
      qed
      with f fin show ?thesis by simp
    qed
  qed
  with g show ?thesis by blast
qed

subsection \<open>Uncached paths\<close>

text \<open>
  C9: for a path that is not in the cache, \<^verbatim>\<open>getHandle\<close> never returns a handle. For a
  path of any number of segments, every one of which exists in the tree below the cached
  root directory, \<^verbatim>\<open>getHandle\<close> returns undefined, \<^verbatim>\<open>stat\<close> on the same state and path throws
  the invalid-argument error and \<^verbatim>\<open>readdir\<close> throws not-a-directory. The walk goes on all
  the same: where nothing else was pending, once the event loop has run as many of its
  continuations as the path has segments, nothing is pending any more, the cache holds
  for every leading part of the path a handle of that entry, and the next \<^verbatim>\<open>getHandle\<close> for
  the same path returns the handle of the entry and changes nothing.
\<close>

theorem getHandle_uncached_returns_undefined:
  assumes "handles st path = None"
  shows "(\<forall>h. fst (getHandle st path) \<noteq> Inr (Some h))
    \<and> (\<forall>names rh. path = absolute names \<and> names \<noteq> [] \<and> (\<forall>n \<in> set names. valid_name n)
          \<and> handles st ''/'' = Some rh \<and> kind rh = DirectoryHandle
          \<and> segments_exist (host st) (locator rh) names \<longrightarrow>
          fst (getHandle st path) = Inr None
        \<and> fst (stat st path) = Inl (ApiError EINVAL None path)
        \<and> fst (readdir st path) = Inl (ApiError ENOTDIR None path)
        \<and> (floating st = [] \<longrightarrow>
             floating ((run_next ^^ length names) (snd (getHandle st path))) = []
           \<and> (\<forall>q. q \<noteq> [] \<and> prefix q names \<longrightarrow>
                 (\<exists>h. handles ((run_next ^^ length names) (snd (getHandle st path))) (absolute q)
                        = Some h
                      \<and> locator h = locator rh @ q))
           \<and> (\<exists>h. getHandle ((run_next ^^ length names) (snd (getHandle st path))) path
                      = (Inr (Some h), (run_next ^^ length names) (snd (getHandle st path)))
                 \<and> locator h = locator rh @ names)))"
proof (intro conjI allI impI)
  fix h
  from getHandle_uncached_cases [OF assms]
  show "fst (getHandle st path) \<noteq> Inr (Some h)" by auto
next
  fix names rh
  assume a: "path = absolute names \<and> names \<noteq> [] \<and> (\<forall>n \<in> set names. valid_name n)
          \<and> handles st ''/'' = Some rh \<and> kind rh = DirectoryHandle
          \<and> segments_exist (host st) (locator rh) names"
  then have p: "path = absolute names" and ne: "names \<noteq> []"
    and v: "\<forall>n \<in> set names. valid_name n" and r: "handles st ''/'' = Some rh"
    and k: "kind rh = DirectoryHandle" and e: "segments_exist (host st) (locator rh) names"
    by simp_all
  from walk_of_existing_path [OF assms p ne v r k e]
  obtain st' where g: "getHandle st path = (Inr None, st')"
    and w: "floating st = [] \<longrightarrow>
            floating ((run_next ^^ length names) st') = []
          \<and> (\<forall>q. q \<noteq> [] \<and> prefix q names \<longrightarrow>
                (\<exists>h. handles ((run_next ^^ length names) st') (absolute q) = Some h
                     \<and> locator h = locator rh @ q))"
    by (elim exE conjE)
  from g show "fst (getHandle st path) = Inr None" by simp
  from stat_undefined [OF g] show "fst (stat st path) = Inl (ApiError EINVAL None path)"
    by simp
  from readdir_undefined [OF g] show "fst (readdir st path) = Inl (ApiError ENOTDIR None path)"
    by simp
  from g have s: "snd (getHandle st path) = st'" by simp
  assume quiet: "floating st = []"
  with w have f: "floating ((run_next ^^ length names) st') = []"
    and c: "\<forall>q. q \<noteq> [] \<and> prefix q names \<longrightarrow>
                (\<exists>h. handles ((run_next ^^ length names) st') (absolute q) = Some h
                     \<and> locator h = locator rh @ q)"
    by simp_all
  from f show "floating ((run_next ^^ length names) (snd (getHandle st path))) = []"
    by (simp only: s)
  fix q
  assume "q \<noteq> [] \<and> prefix q names"
  with c have "\<exists>h. handles ((run_next ^^ length names) st') (absolute q) = Some h
                     \<and> locator h = locator rh @ q"
    by (elim allE [of _ q] impE)
  then show "\<exists>h. handles ((run_next ^^ length names) (snd (getHandle st path))) (absolute q)
                        = Some h \<and> locator h = locator rh @ q"
    by (simp only: s)
next
  fix names rh
  assume a: "path = absolute names \<and> names \<noteq> [] \<and> (\<forall>n \<in> set names. valid_name n)
          \<and> handles st ''/'' = Some rh \<and> kind rh = DirectoryHandle
          \<and> segments_exist (host st) (locator rh) names"
    and quiet: "floating st = []"
  then have p: "path = absolute names" and ne: "names \<noteq> []"
    and v: "\<forall>n \<in> set names. valid_name n" and r: "handles st ''/'' = Some rh"
    and k: "kind rh = DirectoryHandle" and e: "segments_exist (host st) (locator rh) names"
    by simp_all
  from walk_of_existing_path [OF assms p ne v r k e] quiet
  obtain st' where g: "getHandle st path = (Inr None, st')"
    and c: "\<forall>q. q \<noteq> [] \<and> prefix q names \<longrightarrow>
                (\<exists>h. handles ((run_next ^^ length names) st') (absolute q) = Some h
                     \<and> locator h = locator rh @ q)"
    by (elim exE conjE) simp
  from g have s: "snd (getHandle st path) = st'" by simp
  from c ne have "\<exists>h. handles ((run_next ^^ length names) st') (absolute names) = Some h
                     \<and> locator h = locator rh @ names"
    by (elim allE [of _ names]) simp
  then obtain h where h: "handles ((run_next ^^ length names) st') path = Some h"
    and l: "locator h = locator rh @ names" using p by auto
  from getHandle_cached [OF h] l
  show "\<exists>h. getHandle ((run_next ^^ length names) (snd (getHandle st path))) path
                      = (Inr (Some h), (run_next ^^ length names) (snd (getHandle st path)))
                 \<and> locator h = locator rh @ names"
    by (simp only: s) blast
qed

text \<open>
  The path \<^verbatim>\<open>/d/e\<close> of two existing directories, on a fresh resolver: the first
  \<^verbatim>\<open>getHandle\<close> returns undefined and leaves the path uncached, \<^verbatim>\<open>stat\<close> and \<^verbatim>\<open>readdir\<close> throw,
  and after two continuations \<^verbatim>\<open>/d\<close> and \<^verbatim>\<open>/d/e\<close> are cached and the next call returns the
  handle.
\<close>

theorem getHandle_uncached_returns_undefined_witness:
  "handles (construct root_handle nested_host) ''/d/e'' = None
   \<and> ''/d/e'' = absolute [''d'', ''e'']
   \<and> segments_exist nested_host [] [''d'', ''e'']
   \<and> fst (getHandle (construct root_handle nested_host) ''/d/e'') = Inr None
   \<and> fst (stat (construct root_handle nested_host) ''/d/e'') = Inl (ApiError EINVAL None ''/d/e'')
   \<and> fst (readdir (construct root_handle nested_host) ''/d/e'')
       = Inl (ApiError ENOTDIR None ''/d/e'')
   \<and> handles (snd (getHandle (construct root_handle nested_host) ''/d/e'')) ''/d/e'' = None
   \<and> (\<exists>h. handles (run_next (run_next (snd (getHandle (construct root_handle nested_host) ''/d/e''))))
              ''/d'' = Some h \<and> locator h = [''d''])
   \<and> (\<exists>h. getHandle (run_next (run_next (snd (getHandle (construct root_handle nested_host) ''/d/e''))))
              ''/d/e''
            = (Inr (Some h),
               run_next (run_next (snd (getHandle (construct root_handle nested_host) ''/d/e''))))
          \<and> locator h = [''d'', ''e''])"
proof -
  let ?st = "construct root_handle nested_host"
  have u: "handles ?st ''/d/e'' = None"
    by (simp add: construct_def)
  have p: "''/d/e'' = absolute [''d'', ''e'']"
    by (simp add: absolute_def)
  have se: "segments_exist nested_host [] [''d'', ''e'']"
    by (simp add: nested_host_def lookup_def)
  have a: "''/d/e'' = absolute [''d'', ''e''] \<and> [''d'', ''e''] \<noteq> []
      \<and> (\<forall>n \<in> set [''d'', ''e'']. valid_name n)
      \<and> handles ?st ''/'' = Some root_handle \<and> kind root_handle = DirectoryHandle
      \<and> segments_exist (host ?st) (locator root_handle) [''d'', ''e'']"
    using p se by (simp add: construct_def root_handle_def valid_name_def)
  have q: "floating ?st = []"
    by (simp add: construct_def)
  have two: "(run_next ^^ length [''d'', ''e'']) (snd (getHandle ?st ''/d/e''))
      = run_next (run_next (snd (getHandle ?st ''/d/e'')))"
    by simp
  have first: "handles (snd (getHandle ?st ''/d/e'')) ''/d/e'' = None"
    by (simp add: construct_def handleError_def call_getDirectoryHandle_def
        call_getFileHandle_def continueWalk_def file_answered_def directory_answered_def
        getHandleParts_def getHandle_def Let_def lookup_def grant_def getDirectoryHandle_def
        getFileHandle_def valid_name_def NotFoundError_def TypeMismatchError_def
        join_def normalize_path_def normalizeString_def root_handle_def nested_host_def)
  note t = getHandle_uncached_returns_undefined [OF u]
  from t a have r: "fst (getHandle ?st ''/d/e'') = Inr None
      \<and> fst (stat ?st ''/d/e'') = Inl (ApiError EINVAL None ''/d/e'')
      \<and> fst (readdir ?st ''/d/e'') = Inl (ApiError ENOTDIR None ''/d/e'')"
    by blast
  from t a q have c: "\<forall>q. q \<noteq> [] \<and> prefix q [''d'', ''e''] \<longrightarrow>
        (\<exists>h. handles ((run_next ^^ length [''d'', ''e'']) (snd (getHandle ?st ''/d/e'')))
                (absolute q) = Some h
             \<and> locator h = locator root_handle @ q)"
    by blast
  then have "[''d''] \<noteq> [] \<and> prefix [''d''] [''d'', ''e''] \<longrightarrow>
        (\<exists>h. handles ((run_next ^^ length [''d'', ''e'']) (snd (getHandle ?st ''/d/e'')))
                (absolute [''d'']) = Some h
             \<and> locator h = locator root_handle @ [''d''])"
    by (rule allE)
  then have d: "\<exists>h. handles (run_next (run_next (snd (getHandle ?st ''/d/e'')))) ''/d'' = Some h
      \<and> locator h = [''d'']"
    unfolding two by (simp add: absolute_def root_handle_def)
  from t a q have "\<exists>h. getHandle ((run_next ^^ length [''d'', ''e'']) (snd (getHandle ?st ''/d/e'')))
                      ''/d/e''
                    = (Inr (Some h), (run_next ^^ length [''d'', ''e'']) (snd (getHandle ?st ''/d/e'')))
                 \<and> locator h = locator root_handle @ [''d'', ''e'']"
    by blast
  then have g: "\<exists>h. getHandle (run_next (run_next (snd (getHandle ?st ''/d/e'')))) ''/d/e''
                    = (Inr (Some h), run_next (run_next (snd (getHandle ?st ''/d/e''))))
                 \<and> locator h = [''d'', ''e'']"
    unfolding two by (simp add: root_handle_def)
  from u p se r first d g show ?thesis by blast
qed

text \<open>
  C1, on the tree with the single file \<^verbatim>\<open>a.txt\<close> of content \<^verbatim>\<open>hi\<close> and a fresh resolver:
  \<^verbatim>\<open>stat('/a.txt')\<close> does not return the file type and size 2 but throws the
  invalid-argument error; only a second \<^verbatim>\<open>stat('/a.txt')\<close> returns them.
  \<^verbatim>\<open>stat('/missing')\<close> fails with not-found and \<^verbatim>\<open>readdir('/')\<close> returns \<^verbatim>\<open>['/a.txt']\<close>.
\<close>

theorem stat_fresh_file:
  "fst (stat fresh ''/a.txt'') = Inl (ApiError EINVAL None ''/a.txt'')
   \<and> fst (stat (snd (stat fresh ''/a.txt'')) ''/a.txt'')
       = Inr (Some \<lparr>itemType = FILE, size_bytes = 2, mtimeMs = Some 1000\<rparr>)
   \<and> fst (stat fresh ''/missing'') = Inl (ApiError ENOENT None ''/missing'')
   \<and> fst (readdir fresh ''/'') = Inr [''/a.txt'']"
  by (simp add: construct_def handleError_def call_getDirectoryHandle_def call_getFileHandle_def
      continueWalk_def file_answered_def directory_answered_def getHandleParts_def
      getHandle_def Let_def
      lookup_def grant_def getDirectoryHandle_def getFileHandle_def valid_name_def
      NotFoundError_def TypeMismatchError_def
      join_def normalize_path_def normalizeString_def
      is_directory_def is_file_def stat_def readdir_def keys_def children_def getFile_def
      root_handle_def single_file_host_def fresh_def)

text \<open>
  C2, on the same tree: the first resolution of \<^verbatim>\<open>/a.txt\<close> succeeds (it does not throw)
  and returns undefined, the second returns the file handle that the first one put
  into the cache. The two results are not the same handle.
\<close>

theorem getHandle_twice_fresh:
  "fst (getHandle fresh ''/a.txt'') = Inr None
   \<and> fst (getHandle (snd (getHandle fresh ''/a.txt'')) ''/a.txt'')
       = Inr (Some \<lparr>kind = FileHandle, locator = [''a.txt''], hid = 1\<rparr>)
   \<and> fst (getHandle (snd (getHandle fresh ''/a.txt'')) ''/a.txt'')
       \<noteq> fst (getHandle fresh ''/a.txt'')"
  by (simp add: construct_def handleError_def call_getDirectoryHandle_def call_getFileHandle_def
      continueWalk_def file_answered_def directory_answered_def getHandleParts_def
      getHandle_def Let_def
      lookup_def grant_def getDirectoryHandle_def getFileHandle_def valid_name_def
      NotFoundError_def TypeMismatchError_def
      join_def normalize_path_def normalizeString_def
      root_handle_def single_file_host_def fresh_def)

text \<open>
  C3, on the tree with the single directory \<^verbatim>\<open>d\<close> and a fresh resolver: \<^verbatim>\<open>mkdir('/d', 0o777)\<close>,
  without an overwrite flag and at a path where an entry exists, returns normally
  instead of failing with already-exists.
\<close>

theorem mkdir_existing_uncached:
  "lookup single_directory_host [''d''] = Some DirEntry
   \<and> \<not> overwrite (ModeNumber 511)
   \<and> fst (mkdir (construct root_handle single_directory_host) ''/d'' (ModeNumber 511)) = Inr ()"
  by (simp add: construct_def handleError_def call_getDirectoryHandle_def call_getFileHandle_def
      continueWalk_def file_answered_def directory_answered_def getHandleParts_def
      getHandle_def Let_def
      lookup_def grant_def getDirectoryHandle_def getFileHandle_def valid_name_def
      NotFoundError_def TypeMismatchError_def
      join_def normalize_path_def normalizeString_def dirname_def basename_def
      is_directory_def mkdir_def root_handle_def single_directory_host_def)

text \<open>
  When the path is in the cache, \<^verbatim>\<open>mkdir\<close> without an overwrite flag does fail with
  already-exists, and nothing changes.
\<close>

lemma mkdir_cached_exists:
  assumes "handles st p = Some h" and "\<not> overwrite m"
  shows "mkdir st p m = (Inl (ApiError EEXIST None p), st)"
  using assms by (simp add: mkdir_def getHandle_cached)

subsection \<open>Renaming a directory\<close>

text \<open>
  C8, on the tree with the directory \<^verbatim>\<open>d\<close> of two files and a fresh resolver:
  \<^verbatim>\<open>rename('/d', '/e')\<close> on the non-empty directory returns normally without listing the
  children, without renaming a child and without a removal call: the tree is as before,
  and all that has changed is that \<^verbatim>\<open>/d\<close> is in the cache.
\<close>

theorem rename_uncached_directory_noop:
  "lookup two_children_host [''d''] = Some DirEntry
   \<and> children two_children_host [''d''] = [''x'', ''y'']
   \<and> handles (construct root_handle two_children_host) ''/d'' = None
   \<and> map_option fst (rename (Suc n) (construct root_handle two_children_host) ''/d'' ''/e'')
       = Some (Inr ())
   \<and> map_option (\<lambda>r. host (snd r))
        (rename (Suc n) (construct root_handle two_children_host) ''/d'' ''/e'')
       = Some (two_children_host\<lparr>next_handle := 4\<rparr>)
   \<and> map_option (\<lambda>r. floating (snd r))
        (rename (Suc n) (construct root_handle two_children_host) ''/d'' ''/e'')
       = Some []
   \<and> map_option (\<lambda>r. handles (snd r) ''/d'')
        (rename (Suc n) (construct root_handle two_children_host) ''/d'' ''/e'')
       = Some (Some \<lparr>kind = DirectoryHandle, locator = [''d''], hid = 3\<rparr>)"
  by (simp add: construct_def handleError_def call_getDirectoryHandle_def
      call_getFileHandle_def continueWalk_def file_answered_def directory_answered_def
      getHandleParts_def getHandle_def Let_def lookup_def grant_def getDirectoryHandle_def
      getFileHandle_def valid_name_def NotFoundError_def TypeMismatchError_def
      join_def normalize_path_def normalizeString_def is_directory_def is_file_def rethrow_def
      children_def root_handle_def two_children_host_def)

lemma map_of_filter_prefix:
  "prefix t p \<Longrightarrow> map_of (filter (\<lambda>(q, e). \<not> prefix t q) es) p = None"
  by (induction es) auto

lemma unlink_removes_subtree:
  assumes "handles st (dirname path) = Some ph" and "kind ph = DirectoryHandle"
    and "lookup (host st) (locator ph) = Some DirEntry" and "valid_name (basename path)"
    and "lookup (host st) (locator ph @ [basename path]) = Some e"
  shows "unlink st path =
           (Inr (), st\<lparr>host := (host st)\<lparr>entries :=
              filter (\<lambda>(q, e). \<not> prefix (locator ph @ [basename path]) q) (entries (host st))\<rparr>\<rparr>)"
  using assms
  by (simp add: unlink_def getHandle_cached is_directory_def removeEntry_def)

lemma rename_children_step:
  assumes "rename n sa (join oldPath file) (join newPath file) = Some (Inr (), sb)"
  shows "rename_children n sa oldPath newPath (file # rest) =
           (case unlink sb oldPath of
              (Inl err, sc) \<Rightarrow> Some (Inl err, sc)
            | (Inr u, sc) \<Rightarrow> rename_children n sc oldPath newPath rest)"
  using assms by simp

text \<open>
  Where \<^verbatim>\<open>rename\<close> does find a directory handle for the source (the source is in the
  cache), \<^verbatim>\<open>readdir\<close> lists at least one child and \<^verbatim>\<open>mkdir\<close> of the destination succeeds,
  \<^verbatim>\<open>rename\<close> is the loop over the listed children. In every round of the loop, when the
  recursive rename of the child has returned, the next call is \<^verbatim>\<open>unlink\<close> of the source
  directory itself; where the parent of the source is a cached, existing directory that
  holds the source, this call removes the source with everything below it, and the loop
  goes on with the remaining children in that state.
\<close>

lemma rename_cached_directory_loop:
  assumes "handles st oldPath = Some h" and "kind h = DirectoryHandle"
    and "readdir st oldPath = (Inr files, st1)" and "files \<noteq> []"
    and "mkdir st1 newPath (ModeString ''wx'') = (Inr (), st2)"
  shows "rename (Suc n) st oldPath newPath =
           map_option (rethrow oldPath) (rename_children n st2 oldPath newPath files)
    \<and> (\<forall>file rest sa sb.
          rename n sa (join oldPath file) (join newPath file) = Some (Inr (), sb) \<longrightarrow>
          rename_children n sa oldPath newPath (file # rest) =
            (case unlink sb oldPath of
               (Inl err, sc) \<Rightarrow> Some (Inl err, sc)
             | (Inr u, sc) \<Rightarrow> rename_children n sc oldPath newPath rest)
        \<and> (\<forall>ph e. handles sb (dirname oldPath) = Some ph \<and> kind ph = DirectoryHandle
              \<and> lookup (host sb) (locator ph) = Some DirEntry \<and> valid_name (basename oldPath)
              \<and> lookup (host sb) (locator ph @ [basename oldPath]) = Some e \<longrightarrow>
              (\<exists>sc. unlink sb oldPath = (Inr (), sc)
                 \<and> (\<forall>p. prefix (locator ph @ [basename oldPath]) p \<longrightarrow> lookup (host sc) p = None)
                 \<and> rename_children n sa oldPath newPath (file # rest) =
                     rename_children n sc oldPath newPath rest)))"
proof (intro conjI allI impI)
  have "rename_directory_setup st oldPath newPath = (Inr files, st2)"
    using assms(3,5) by (simp add: rename_directory_setup_def)
  then show "rename (Suc n) st oldPath newPath =
           map_option (rethrow oldPath) (rename_children n st2 oldPath newPath files)"
    using assms(1,2,4) by (simp add: getHandle_cached is_directory_def)
next
  fix child rest sa sb
  assume c: "rename n sa (join oldPath child) (join newPath child) = Some (Inr (), sb)"
  then show "rename_children n sa oldPath newPath (child # rest) =
            (case unlink sb oldPath of
               (Inl err, sc) \<Rightarrow> Some (Inl err, sc)
             | (Inr u, sc) \<Rightarrow> rename_children n sc oldPath newPath rest)"
    by (rule rename_children_step)
  fix ph e
  assume p: "handles sb (dirname oldPath) = Some ph \<and> kind ph = DirectoryHandle
              \<and> lookup (host sb) (locator ph) = Some DirEntry \<and> valid_name (basename oldPath)
              \<and> lookup (host sb) (locator ph @ [basename oldPath]) = Some e"
  let ?sc = "sb\<lparr>host := (host sb)\<lparr>entries :=
              filter (\<lambda>(q, e). \<not> prefix (locator ph @ [basename oldPath]) q) (entries (host sb))\<rparr>\<rparr>"
  from p have u: "unlink sb oldPath = (Inr (), ?sc)"
    by (intro unlink_removes_subtree) auto
  have "\<forall>p. prefix (locator ph @ [basename oldPath]) p \<longrightarrow> lookup (host ?sc) p = None"
    by (simp add: lookup_def map_of_filter_prefix)
  moreover have "rename_children n sa oldPath newPath (child # rest) =
                     rename_children n ?sc oldPath newPath rest"
    using rename_children_step [OF c] u by simp
  ultimately show "\<exists>sc. unlink sb oldPath = (Inr (), sc)
                 \<and> (\<forall>p. prefix (locator ph @ [basename oldPath]) p \<longrightarrow> lookup (host sc) p = None)
                 \<and> rename_children n sa oldPath newPath (child # rest) =
                     rename_children n sc oldPath newPath rest"
    using u by blast
qed

text \<open>
  A directory with two children, with the source and the parent of the destination in the
  cache: after the first round the source and both children are gone, and the rename
  fails with not-found at the second child.
\<close>

lemma rename_cached_directory_example:
  "handles warm ''/d'' = Some \<lparr>kind = DirectoryHandle, locator = [''d''], hid = 1\<rparr>
   \<and> readdir warm ''/d'' = (Inr [''/d/x'', ''/d/y''], warm_listed)
   \<and> mkdir warm_listed ''/p/e'' (ModeString ''wx'') = (Inr (), warm_made)
   \<and> rename (Suc 0) warm_made (join ''/d'' ''/d/x'') (join ''/p/e'' ''/d/x'') = Some (Inr (), warm_first)
   \<and> map fst (entries (host warm_first)) = [[], [''d''], [''d'', ''x''], [''d'', ''y''], [''p''], [''p'', ''e'']]
   \<and> map fst (entries (host (snd (unlink warm_first ''/d'')))) = [[], [''p''], [''p'', ''e'']]
   \<and> rename (Suc (Suc 0)) warm ''/d'' ''/p/e''
        = map_option (rethrow ''/d'')
            (rename_children (Suc 0) (snd (unlink warm_first ''/d'')) ''/d'' ''/p/e'' [''/d/y''])
   \<and> map_option fst (rename (Suc (Suc 0)) warm ''/d'' ''/p/e'') = Some (Inl (ApiError ENOENT None ''/d''))"
proof -
  have h: "handles warm ''/d'' = Some \<lparr>kind = DirectoryHandle, locator = [''d''], hid = 1\<rparr>"
    by (simp add: warm_def)
  have k: "kind \<lparr>kind = DirectoryHandle, locator = [''d''], hid = 1\<rparr> = DirectoryHandle"
    by simp
  have ls: "readdir warm ''/d'' = (Inr [''/d/x'', ''/d/y''], warm_listed)"
    by (simp add: two_children_host_def warm_def warm_listed_def warm_made_def warm_first_def
        root_handle_def
        construct_def handleError_def call_getDirectoryHandle_def call_getFileHandle_def
        continueWalk_def file_answered_def directory_answered_def getHandleParts_def
        getHandle_def Let_def
        is_directory_def is_file_def readdir_def unlink_def mkdir_def rename_file_def
        rename_directory_setup_def rethrow_def keys_def children_def removeEntry_def getFile_def
        createWritable_def commit_def InvalidModificationError_def
        lookup_def grant_def getDirectoryHandle_def getFileHandle_def valid_name_def
        NotFoundError_def TypeMismatchError_def
        join_def normalize_path_def normalizeString_def dirname_def basename_def)
  have ne: "[''/d/x'', ''/d/y''] \<noteq> []" by simp
  have mk: "mkdir warm_listed ''/p/e'' (ModeString ''wx'') = (Inr (), warm_made)"
    by (simp add: two_children_host_def warm_def warm_listed_def warm_made_def warm_first_def
        root_handle_def
        construct_def handleError_def call_getDirectoryHandle_def call_getFileHandle_def
        continueWalk_def file_answered_def directory_answered_def getHandleParts_def
        getHandle_def Let_def
        is_directory_def is_file_def readdir_def unlink_def mkdir_def rename_file_def
        rename_directory_setup_def rethrow_def keys_def children_def removeEntry_def getFile_def
        createWritable_def commit_def InvalidModificationError_def
        lookup_def grant_def getDirectoryHandle_def getFileHandle_def valid_name_def
        NotFoundError_def TypeMismatchError_def
        join_def normalize_path_def normalizeString_def dirname_def basename_def)
  have j: "join ''/d'' ''/d/x'' = ''/d/d/x''" "join ''/p/e'' ''/d/x'' = ''/p/e/d/x''"
    by (simp_all add: join_def normalize_path_def normalizeString_def)
  have ch: "rename (Suc 0) warm_made (join ''/d'' ''/d/x'') (join ''/p/e'' ''/d/x'') = Some (Inr (), warm_first)"
    unfolding j by (simp add: two_children_host_def warm_def warm_listed_def warm_made_def warm_first_def
        root_handle_def
        construct_def handleError_def call_getDirectoryHandle_def call_getFileHandle_def
        continueWalk_def file_answered_def directory_answered_def getHandleParts_def
        getHandle_def Let_def
        is_directory_def is_file_def readdir_def unlink_def mkdir_def rename_file_def
        rename_directory_setup_def rethrow_def keys_def children_def removeEntry_def getFile_def
        createWritable_def commit_def InvalidModificationError_def
        lookup_def grant_def getDirectoryHandle_def getFileHandle_def valid_name_def
        NotFoundError_def TypeMismatchError_def
        join_def normalize_path_def normalizeString_def dirname_def basename_def)
  have before: "map fst (entries (host warm_first))
      = [[], [''d''], [''d'', ''x''], [''d'', ''y''], [''p''], [''p'', ''e'']]"
    by (simp add: two_children_host_def warm_def warm_listed_def warm_made_def warm_first_def
        root_handle_def
        construct_def handleError_def call_getDirectoryHandle_def call_getFileHandle_def
        continueWalk_def file_answered_def directory_answered_def getHandleParts_def
        getHandle_def Let_def
        is_directory_def is_file_def readdir_def unlink_def mkdir_def rename_file_def
        rename_directory_setup_def rethrow_def keys_def children_def removeEntry_def getFile_def
        createWritable_def commit_def InvalidModificationError_def
        lookup_def grant_def getDirectoryHandle_def getFileHandle_def valid_name_def
        NotFoundError_def TypeMismatchError_def
        join_def normalize_path_def normalizeString_def dirname_def basename_def)
  have par: "handles warm_first (dirname ''/d'') = Some root_handle \<and> kind root_handle = DirectoryHandle
      \<and> lookup (host warm_first) (locator root_handle) = Some DirEntry \<and> valid_name (basename ''/d'')
      \<and> lookup (host warm_first) (locator root_handle @ [basename ''/d'']) = Some DirEntry"
    by (simp add: two_children_host_def warm_def warm_listed_def warm_made_def warm_first_def
        root_handle_def
        construct_def handleError_def call_getDirectoryHandle_def call_getFileHandle_def
        continueWalk_def file_answered_def directory_answered_def getHandleParts_def
        getHandle_def Let_def
        is_directory_def is_file_def readdir_def unlink_def mkdir_def rename_file_def
        rename_directory_setup_def rethrow_def keys_def children_def removeEntry_def getFile_def
        createWritable_def commit_def InvalidModificationError_def
        lookup_def grant_def getDirectoryHandle_def getFileHandle_def valid_name_def
        NotFoundError_def TypeMismatchError_def
        join_def normalize_path_def normalizeString_def dirname_def basename_def)
  note t = rename_cached_directory_loop [OF h k ls ne mk, of "Suc 0"]
  from t have top: "rename (Suc (Suc 0)) warm ''/d'' ''/p/e'' =
      map_option (rethrow ''/d'') (rename_children (Suc 0) warm_made ''/d'' ''/p/e'' [''/d/x'', ''/d/y''])"
    by blast
  from t ch par obtain sc where
    u: "unlink warm_first ''/d'' = (Inr (), sc)"
    and gone: "\<forall>p. prefix (locator root_handle @ [basename ''/d'']) p \<longrightarrow> lookup (host sc) p = None"
    and loop: "rename_children (Suc 0) warm_made ''/d'' ''/p/e'' (''/d/x'' # [''/d/y''])
        = rename_children (Suc 0) sc ''/d'' ''/p/e'' [''/d/y'']"
    by blast
  from u have sc: "sc = snd (unlink warm_first ''/d'')" by simp
  have after: "map fst (entries (host (snd (unlink warm_first ''/d'')))) = [[], [''p''], [''p'', ''e'']]"
    by (simp add: two_children_host_def warm_def warm_listed_def warm_made_def warm_first_def
        root_handle_def
        construct_def handleError_def call_getDirectoryHandle_def call_getFileHandle_def
        continueWalk_def file_answered_def directory_answered_def getHandleParts_def
        getHandle_def Let_def
        is_directory_def is_file_def readdir_def unlink_def mkdir_def rename_file_def
        rename_directory_setup_def rethrow_def keys_def children_def removeEntry_def getFile_def
        createWritable_def commit_def InvalidModificationError_def
        lookup_def grant_def getDirectoryHandle_def getFileHandle_def valid_name_def
        NotFoundError_def TypeMismatchError_def
        join_def normalize_path_def normalizeString_def dirname_def basename_def)
  have final: "map_option fst (map_option (rethrow ''/d'')
        (rename_children (Suc 0) (snd (unlink warm_first ''/d'')) ''/d'' ''/p/e'' [''/d/y'']))
      = Some (Inl (ApiError ENOENT None ''/d''))"
    by (simp add: two_children_host_def warm_def warm_listed_def warm_made_def warm_first_def
        root_handle_def
        construct_def handleError_def call_getDirectoryHandle_def call_getFileHandle_def
        continueWalk_def file_answered_def directory_answered_def getHandleParts_def
        getHandle_def Let_def
        is_directory_def is_file_def readdir_def unlink_def mkdir_def rename_file_def
        rename_directory_setup_def rethrow_def keys_def children_def removeEntry_def getFile_def
        createWritable_def commit_def InvalidModificationError_def
        lookup_def grant_def getDirectoryHandle_def getFileHandle_def valid_name_def
        NotFoundError_def TypeMismatchError_def
        join_def normalize_path_def normalizeString_def dirname_def basename_def)
  from h ls mk ch before after top loop sc final show ?thesis by simp
qed

end
